theory Spec2Isabelle
  imports Complex_Main "HOL-Library.Char_ord" "HOL-Library.List_Lexorder"
begin

section \<open>Python values\<close>

text \<open>
  The registry of \<^verbatim>\<open>dynamic_blocks.py\<close> is whatever \<^verbatim>\<open>json.loads\<close> returned, later
  changed in place. It is therefore modelled as an untyped Python value. A dict is an
  association list in iteration order (keys of a JSON object are strings); integers and
  floats are kept apart because they print differently; a float is idealised as a real.
\<close>

datatype pyval =
    PNone
  | PBool bool
  | PInt int
  | PFloat real
  | PStr string
  | PList "pyval list"
  | PDict "(string \<times> pyval) list"

datatype error = KeyError | TypeError | AttributeError | ValueError | OverflowError

text \<open>Truth value of an object, as \<^verbatim>\<open>if x:\<close> and \<^verbatim>\<open>not x\<close> take it.\<close>

fun truthy :: "pyval \<Rightarrow> bool" where
  "truthy PNone = False"
| "truthy (PBool b) = b"
| "truthy (PInt i) = (i \<noteq> 0)"
| "truthy (PFloat x) = (x \<noteq> 0)"
| "truthy (PStr s) = (s \<noteq> [])"
| "truthy (PList xs) = (xs \<noteq> [])"
| "truthy (PDict kvs) = (kvs \<noteq> [])"

text \<open>\<^verbatim>\<open>d[k]\<close> with a string key: KeyError on a dict without the key, TypeError on
  anything that is not a dict.\<close>

fun getitem :: "pyval \<Rightarrow> string \<Rightarrow> error + pyval" where
  "getitem (PDict kvs) k = (case map_of kvs k of None \<Rightarrow> Inl KeyError | Some v \<Rightarrow> Inr v)"
| "getitem v k = Inl TypeError"

text \<open>\<^verbatim>\<open>d.get(k)\<close>, \<^verbatim>\<open>d.items()\<close>, \<^verbatim>\<open>d.values()\<close>, \<^verbatim>\<open>d.keys()\<close>: methods of dict only.\<close>

fun dict_of :: "pyval \<Rightarrow> error + (string \<times> pyval) list" where
  "dict_of (PDict kvs) = Inr kvs"
| "dict_of v = Inl AttributeError"


text \<open>\<^verbatim>\<open>d[k] = v\<close>: an existing key keeps its place, a new key goes last.\<close>

fun dict_set :: "(string \<times> pyval) list \<Rightarrow> string \<Rightarrow> pyval \<Rightarrow> (string \<times> pyval) list" where
  "dict_set [] k v = [(k, v)]"
| "dict_set ((k', v') # kvs) k v =
     (if k' = k then (k, v) # kvs else (k', v') # dict_set kvs k v)"

definition dict_pop :: "(string \<times> pyval) list \<Rightarrow> string \<Rightarrow> (string \<times> pyval) list" where
  "dict_pop kvs k = filter (\<lambda>kv. fst kv \<noteq> k) kvs"

definition setdefault :: "(string \<times> pyval) list \<Rightarrow> string \<Rightarrow> pyval \<Rightarrow> (string \<times> pyval) list" where
  "setdefault kvs k v = (if k \<in> fst ` set kvs then kvs else kvs @ [(k, v)])"

text \<open>\<^verbatim>\<open>d[k] = v\<close> on an arbitrary object.\<close>

fun setitem :: "pyval \<Rightarrow> string \<Rightarrow> pyval \<Rightarrow> error + pyval" where
  "setitem (PDict kvs) k v = Inr (PDict (dict_set kvs k v))"
| "setitem d k v = Inl TypeError"

section \<open>The Python library and the host, as far as the program uses them\<close>

text \<open>
  Library functions whose results the program only passes on are parameters: the JSON
  codec (\<^verbatim>\<open>json.loads\<close> raising is \<open>None\<close>), the text \<^verbatim>\<open>str.format\<close> gives for a
  value that is not a string, \<^verbatim>\<open>float\<close> of a string (\<open>None\<close> is its ValueError) and of
  an integer (\<open>None\<close> is its OverflowError), \<^verbatim>\<open>round(x, 6)\<close>, and \<^verbatim>\<open>str.lower\<close>.
\<close>

record pylib =
  json_loads :: "string \<Rightarrow> pyval option"
  json_dumps :: "pyval \<Rightarrow> string"
  repr :: "pyval \<Rightarrow> string"
  float_of_str :: "string \<Rightarrow> real option"
  float_of_int :: "int \<Rightarrow> real option"
  round6 :: "real \<Rightarrow> real"
  str_lower :: "string \<Rightarrow> string"

text \<open>\<^verbatim>\<open>"{}".format(v)\<close>.\<close>

fun format :: "pylib \<Rightarrow> pyval \<Rightarrow> string" where
  "format L (PStr s) = s"
| "format L v = repr L v"

text \<open>\<^verbatim>\<open>float(v)\<close>.\<close>

fun float :: "pylib \<Rightarrow> pyval \<Rightarrow> error + real" where
  "float L (PFloat x) = Inr x"
| "float L (PInt i) = (case float_of_int L i of None \<Rightarrow> Inl OverflowError | Some x \<Rightarrow> Inr x)"
| "float L (PBool b) = Inr (if b then 1 else 0)"
| "float L (PStr s) = (case float_of_str L s of None \<Rightarrow> Inl ValueError | Some x \<Rightarrow> Inr x)"
| "float L v = Inl TypeError"

text \<open>\<^verbatim>\<open>s.lower()\<close>: a method of strings.\<close>

fun lower :: "pylib \<Rightarrow> pyval \<Rightarrow> error + string" where
  "lower L (PStr s) = Inr (str_lower L s)"
| "lower L v = Inl AttributeError"

text \<open>
  Modelled from the spec: the host document boundary of section 6. An object identity
  (Guid) is identified with its text, so \<^verbatim>\<open>str(id)\<close> and \<^verbatim>\<open>Rhino.Guid(text)\<close> are the
  identity. The document holds the string store (with a log of the writes made to it),
  the table of placed objects, and the table of instance definitions, whose handles are
  positions (a deleted definition leaves its slot empty). What the host decides on its
  own is part of the state too: which objects it agrees to delete, and the identities
  it will issue to the next placed objects, the empty identity meaning that creation
  fails.
\<close>

type_synonym guid = string
type_synonym point3d = "real \<times> real \<times> real"
type_synonym xform = "real list"
type_synonym attributes = "(string \<times> string) list"

datatype curve = NurbsCurve "point3d list"

datatype doc_object =
    InstanceObject int xform attributes
  | OtherObject attributes

record idef =
  idef_name :: string
  idef_description :: string
  idef_base_point :: point3d
  idef_geometry :: "curve list"
  idef_attributes :: "attributes list"

record host_doc =
  strings :: "string \<times> string \<Rightarrow> string option"
  string_writes :: "(string \<times> string \<times> string) list"
  objects :: "guid \<Rightarrow> doc_object option"
  idefs :: "idef option list"
  can_delete :: "guid \<Rightarrow> bool"
  id_supply :: "guid list"

definition guid_empty :: guid where
  "guid_empty = ''00000000-0000-0000-0000-000000000000''"

definition GetValue :: "host_doc \<Rightarrow> string \<Rightarrow> string \<Rightarrow> string option" where
  "GetValue doc section key = strings doc (section, key)"

definition SetString :: "string \<Rightarrow> string \<Rightarrow> string \<Rightarrow> host_doc \<Rightarrow> host_doc" where
  "SetString section key v doc =
     doc\<lparr>strings := (strings doc)((section, key) \<mapsto> v),
         string_writes := string_writes doc @ [(section, key, v)]\<rparr>"

section \<open>Programs that change the document and may raise\<close>

text \<open>A statement runs in a document and leaves a document, also when it raises.\<close>

type_synonym 'a prog = "host_doc \<Rightarrow> (error + 'a) \<times> host_doc"

definition ret :: "'a \<Rightarrow> 'a prog" where
  "ret a doc = (Inr a, doc)"

definition lift :: "error + 'a \<Rightarrow> 'a prog" where
  "lift r doc = (r, doc)"

definition bnd :: "'a prog \<Rightarrow> ('a \<Rightarrow> 'b prog) \<Rightarrow> 'b prog" where
  "bnd m f doc = (case m doc of (Inl e, doc') \<Rightarrow> (Inl e, doc') | (Inr a, doc') \<Rightarrow> f a doc')"

section \<open>DynamicBlockRegistry\<close>

definition STORE_SECTION :: string where
  "STORE_SECTION = ''RhinoDynamicBlocks''"

definition STORE_KEY :: string where
  "STORE_KEY = ''Registry''"

definition empty_registry :: pyval where
  "empty_registry = PDict [(''families'', PDict []), (''instances'', PDict [])]"

text \<open>The body of the \<^verbatim>\<open>try\<close> in \<^verbatim>\<open>_load\<close>: \<^verbatim>\<open>json.loads\<close> may raise, and
  \<^verbatim>\<open>setdefault\<close> is a method of dict only.\<close>

definition load_try :: "pylib \<Rightarrow> string \<Rightarrow> error + pyval" where
  "load_try L raw =
     (case json_loads L raw of
        None \<Rightarrow> Inl ValueError
      | Some loaded \<Rightarrow>
          (case loaded of
             PDict kvs \<Rightarrow>
               Inr (PDict (setdefault (setdefault kvs ''families'' (PDict []))
                                      ''instances'' (PDict [])))
           | _ \<Rightarrow> Inl AttributeError))"

definition DynamicBlockRegistry_load :: "pylib \<Rightarrow> host_doc \<Rightarrow> pyval" where
  "DynamicBlockRegistry_load L doc =
     (case GetValue doc STORE_SECTION STORE_KEY of
        None \<Rightarrow> empty_registry
      | Some raw \<Rightarrow>
          if raw = [] then empty_registry
          else (case load_try L raw of Inl e \<Rightarrow> empty_registry | Inr loaded \<Rightarrow> loaded))"

definition save :: "pylib \<Rightarrow> pyval \<Rightarrow> unit prog" where
  "save L data doc = (Inr (), SetString STORE_SECTION STORE_KEY (json_dumps L data) doc)"

record Family =
  family_id :: string
  name :: string
  family_type :: string
  parameters :: pyval



text \<open>The loop of \<^verbatim>\<open>find_family_by_name\<close> over \<^verbatim>\<open>items()\<close>; \<open>None\<close> is the pair
  \<^verbatim>\<open>(None, None)\<close>.\<close>

fun find_family_loop ::
  "pylib \<Rightarrow> (string \<times> pyval) list \<Rightarrow> string \<Rightarrow> error + (string \<times> pyval) option" where
  "find_family_loop L [] nm = Inr None"
| "find_family_loop L ((fid, family) # rest) nm =
     (case getitem family ''name'' of Inl e \<Rightarrow> Inl e
      | Inr n \<Rightarrow> (case lower L n of Inl e \<Rightarrow> Inl e
          | Inr lowered \<Rightarrow> if lowered = str_lower L nm then Inr (Some (fid, family))
                     else find_family_loop L rest nm))"

definition find_family_by_name ::
  "pylib \<Rightarrow> pyval \<Rightarrow> string \<Rightarrow> error + (string \<times> pyval) option" where
  "find_family_by_name L data nm =
     (case getitem data ''families'' of Inl e \<Rightarrow> Inl e
      | Inr fams \<Rightarrow> (case dict_of fams of Inl e \<Rightarrow> Inl e
          | Inr kvs \<Rightarrow> find_family_loop L kvs nm))"

text \<open>\<^verbatim>\<open>add_instance\<close>, \<^verbatim>\<open>get_instance\<close>, \<^verbatim>\<open>remove_instance\<close>: the key is
  \<^verbatim>\<open>str(obj_id)\<close>.\<close>

definition add_instance :: "pylib \<Rightarrow> pyval \<Rightarrow> pyval \<Rightarrow> pyval \<Rightarrow> pyval \<Rightarrow> pyval prog" where
  "add_instance L data obj_id fid values =
     bnd (lift (getitem data ''instances'')) (\<lambda>insts.
     bnd (lift (setitem insts (format L obj_id)
            (PDict [(''family_id'', fid), (''values'', values)]))) (\<lambda>insts'.
     bnd (lift (setitem data ''instances'' insts')) (\<lambda>data'.
     bnd (save L data') (\<lambda>_. ret data'))))"


text \<open>\<^verbatim>\<open>d.pop(k, None)\<close>: a list has a \<^verbatim>\<open>pop\<close> of another signature, other objects
  have none.\<close>

fun pop_default :: "pyval \<Rightarrow> string \<Rightarrow> error + pyval" where
  "pop_default (PDict kvs) k = Inr (PDict (dict_pop kvs k))"
| "pop_default (PList xs) k = Inl TypeError"
| "pop_default v k = Inl AttributeError"

definition remove_instance :: "pylib \<Rightarrow> pyval \<Rightarrow> pyval \<Rightarrow> pyval prog" where
  "remove_instance L data obj_id =
     bnd (lift (getitem data ''instances'')) (\<lambda>insts.
     bnd (lift (pop_default insts (format L obj_id))) (\<lambda>insts'.
     bnd (lift (setitem data ''instances'' insts')) (\<lambda>data'.
     bnd (save L data') (\<lambda>_. ret data'))))"

text \<open>\<^verbatim>\<open>list(reg.iter_instances_for_family(family_id))\<close>: the generator run to its end.\<close>

fun iter_instances_loop :: "(string \<times> pyval) list \<Rightarrow> string \<Rightarrow> error + (string \<times> pyval) list" where
  "iter_instances_loop [] fid = Inr []"
| "iter_instances_loop ((obj_id, info) # rest) fid =
     (case getitem info ''family_id'' of Inl e \<Rightarrow> Inl e
      | Inr f \<Rightarrow> (case iter_instances_loop rest fid of Inl e \<Rightarrow> Inl e
          | Inr others \<Rightarrow> Inr (if f = PStr fid then (obj_id, info) # others else others)))"

definition iter_instances_for_family :: "pyval \<Rightarrow> string \<Rightarrow> error + (string \<times> pyval) list" where
  "iter_instances_for_family data fid =
     (case getitem data ''instances'' of Inl e \<Rightarrow> Inl e
      | Inr insts \<Rightarrow> (case dict_of insts of Inl e \<Rightarrow> Inl e
          | Inr kvs \<Rightarrow> iter_instances_loop kvs fid))"

section \<open>Geometry factories\<close>

definition make_rectangle_geometry :: "real \<Rightarrow> real \<Rightarrow> curve list" where
  "make_rectangle_geometry width height =
     [NurbsCurve [(0, 0, 0), (width, 0, 0), (width, height, 0), (0, height, 0), (0, 0, 0)]]"

definition build_geometry :: "pylib \<Rightarrow> pyval \<Rightarrow> pyval \<Rightarrow> error + curve list" where
  "build_geometry L ftype values =
     (if ftype = PStr ''rectangle'' then
        (case getitem values ''Width'' of Inl e \<Rightarrow> Inl e
         | Inr w \<Rightarrow> (case float L w of Inl e \<Rightarrow> Inl e
         | Inr width \<Rightarrow> (case getitem values ''Height'' of Inl e \<Rightarrow> Inl e
         | Inr h \<Rightarrow> (case float L h of Inl e \<Rightarrow> Inl e
         | Inr height \<Rightarrow> Inr (make_rectangle_geometry width height)))))
      else Inl ValueError)"

section \<open>Block definition helpers\<close>

fun join :: "string \<Rightarrow> string list \<Rightarrow> string" where
  "join sep [] = []"
| "join sep [x] = x"
| "join sep (x # y # ys) = x @ sep @ join sep (y # ys)"

text \<open>The generator \<^verbatim>\<open>"{}={}".format(k, values[k]) for k in ...\<close>.\<close>

fun format_items :: "pylib \<Rightarrow> pyval \<Rightarrow> string list \<Rightarrow> error + string list" where
  "format_items L values [] = Inr []"
| "format_items L values (k # ks) =
     (case getitem values k of Inl e \<Rightarrow> Inl e
      | Inr v \<Rightarrow> (case format_items L values ks of Inl e \<Rightarrow> Inl e
          | Inr ts \<Rightarrow> Inr ((k @ ''='' @ format L v) # ts)))"

definition definition_name :: "pylib \<Rightarrow> pyval \<Rightarrow> pyval \<Rightarrow> error + string" where
  "definition_name L family_name values =
     (case dict_of values of Inl e \<Rightarrow> Inl e
      | Inr kvs \<Rightarrow> (case format_items L values (sort (map fst kvs)) of Inl e \<Rightarrow> Inl e
          | Inr ts \<Rightarrow> Inr (''DB_'' @ format L family_name @ ''_'' @ join ''_'' ts)))"

text \<open>Modelled from the spec: \<^verbatim>\<open>findDefinition(name) -> handle|absent\<close>, which skips
  deleted definitions, and \<^verbatim>\<open>createDefinition(...) -> handle\<close>, which takes the next
  slot of the table.\<close>

fun Find_from :: "nat \<Rightarrow> idef option list \<Rightarrow> string \<Rightarrow> int option" where
  "Find_from i [] nm = None"
| "Find_from i (None # ds) nm = Find_from (Suc i) ds nm"
| "Find_from i (Some d # ds) nm =
     (if idef_name d = nm then Some (int i) else Find_from (Suc i) ds nm)"

definition InstanceDefinitions_Find :: "host_doc \<Rightarrow> string \<Rightarrow> int option" where
  "InstanceDefinitions_Find doc nm = Find_from 0 (idefs doc) nm"

definition InstanceDefinitions_Add ::
  "string \<Rightarrow> string \<Rightarrow> point3d \<Rightarrow> curve list \<Rightarrow> attributes list \<Rightarrow> int prog" where
  "InstanceDefinitions_Add nm descr base geometry attrs doc =
     (Inr (int (length (idefs doc))),
      doc\<lparr>idefs := idefs doc @
        [Some \<lparr>idef_name = nm, idef_description = descr, idef_base_point = base,
               idef_geometry = geometry, idef_attributes = attrs\<rparr>]\<rparr>)"

definition CreateDefaultAttributes :: attributes where
  "CreateDefaultAttributes = []"

definition ensure_definition :: "pylib \<Rightarrow> pyval \<Rightarrow> pyval \<Rightarrow> int prog" where
  "ensure_definition L family values =
     bnd (lift (getitem family ''name'')) (\<lambda>fname.
     bnd (lift (definition_name L fname values)) (\<lambda>nm. (\<lambda>doc.
       (case InstanceDefinitions_Find doc nm of
          Some index \<Rightarrow> ret index doc
        | None \<Rightarrow>
            bnd (lift (getitem family ''family_type'')) (\<lambda>ftype.
            bnd (lift (build_geometry L ftype values)) (\<lambda>geometry.
              InstanceDefinitions_Add nm ''Dynamic block variant'' (0, 0, 0) geometry
                (map (\<lambda>_. CreateDefaultAttributes) geometry))) doc))))"

text \<open>Modelled from the spec: \<^verbatim>\<open>deleteObject(object) -> bool\<close> and
  \<^verbatim>\<open>createPlacedInstance(definitionHandle, transform, attributes) -> id|emptyId\<close>.\<close>

definition Objects_Delete :: "guid \<Rightarrow> bool prog" where
  "Objects_Delete g doc =
     (if can_delete doc g then (Inr True, doc\<lparr>objects := (objects doc)(g := None)\<rparr>)
      else (Inr False, doc))"

definition AddInstanceObject :: "int \<Rightarrow> xform \<Rightarrow> attributes \<Rightarrow> guid prog" where
  "AddInstanceObject index xf attr doc =
     (case id_supply doc of
        [] \<Rightarrow> (Inr guid_empty, doc)
      | g # gs \<Rightarrow>
          if g = guid_empty then (Inr guid_empty, doc\<lparr>id_supply := gs\<rparr>)
          else (Inr g, doc\<lparr>objects := (objects doc)(g \<mapsto> InstanceObject index xf attr),
                           id_supply := gs\<rparr>))"

definition replace_instance_geometry :: "pylib \<Rightarrow> guid \<Rightarrow> pyval \<Rightarrow> pyval \<Rightarrow> pyval prog" where
  "replace_instance_geometry L instance_id family values doc =
     (case objects doc instance_id of
        None \<Rightarrow> (Inr (PBool False), doc)
      | Some (OtherObject a) \<Rightarrow> (Inr (PBool False), doc)
      | Some (InstanceObject i xf attr) \<Rightarrow>
          bnd (Objects_Delete instance_id) (\<lambda>deleted.
            if \<not> deleted then ret (PBool False)
            else
              bnd (ensure_definition L family values) (\<lambda>idef_index.
              bnd (AddInstanceObject idef_index xf attr) (\<lambda>new_id.
                if new_id = guid_empty then ret (PBool False)
                else ret (PStr new_id)))) doc)"

section \<open>Commands\<close>

text \<open>What a command shows: message boxes and the redraw of the views. The answers to
  its prompts are arguments, \<open>None\<close> for a prompt the user declined.\<close>

datatype ui = MessageBox string string | Redraw

definition quoted :: "string \<Rightarrow> string" where
  "quoted s = [CHR 0x27] @ s @ [CHR 0x27]"



text \<open>The names shown by \<^verbatim>\<open>rs.ListBox\<close>: \<^verbatim>\<open>sorted([f["name"] for f in families.values()])\<close>.
  The list box takes strings; names of another type are reported as a TypeError.\<close>

fun family_names :: "(string \<times> pyval) list \<Rightarrow> error + pyval list" where
  "family_names [] = Inr []"
| "family_names ((fid, f) # rest) =
     (case getitem f ''name'' of Inl e \<Rightarrow> Inl e
      | Inr n \<Rightarrow> (case family_names rest of Inl e \<Rightarrow> Inl e | Inr ns \<Rightarrow> Inr (n # ns)))"

fun string_of :: "pyval \<Rightarrow> string option" where
  "string_of (PStr s) = Some s"
| "string_of v = None"

definition sorted_names :: "pyval list \<Rightarrow> error + string list" where
  "sorted_names ns =
     (if list_all (\<lambda>n. string_of n \<noteq> None) ns
      then Inr (sort (map (\<lambda>n. case string_of n of Some s \<Rightarrow> s | None \<Rightarrow> []) ns))
      else Inl TypeError)"

text \<open>One round of the loop over \<^verbatim>\<open>updates\<close> in \<^verbatim>\<open>cmd_sync_family_instances\<close>; it
  returns the registry as the round leaves it.\<close>

definition sync_step :: "pylib \<Rightarrow> pyval \<Rightarrow> string \<Rightarrow> string \<times> pyval \<Rightarrow> pyval \<Rightarrow> pyval prog" where
  "sync_step L family fid u data doc =
     (case u of (obj_id, info) \<Rightarrow>
        if objects doc obj_id = None then remove_instance L data (PStr obj_id) doc
        else
          bnd (lift (getitem info ''values'')) (\<lambda>values.
          bnd (replace_instance_geometry L obj_id family values) (\<lambda>new_id.
            if truthy new_id \<and> new_id \<noteq> PStr obj_id then
              bnd (remove_instance L data (PStr obj_id)) (\<lambda>data1.
              bnd (lift (getitem info ''values'')) (\<lambda>values'.
                add_instance L data1 new_id (PStr fid) values'))
            else ret data)) doc)"

fun sync_loop ::
  "pylib \<Rightarrow> pyval \<Rightarrow> string \<Rightarrow> (string \<times> pyval) list \<Rightarrow> pyval \<Rightarrow> pyval prog" where
  "sync_loop L family fid [] data doc = (Inr data, doc)"
| "sync_loop L family fid (u # us) data doc =
     (case sync_step L family fid u data doc of
        (Inl e, doc') \<Rightarrow> (Inl e, doc')
      | (Inr data', doc') \<Rightarrow> sync_loop L family fid us data' doc')"

text \<open>\<^verbatim>\<open>family["parameters"]["Width"] = ...\<close> and the same for the height. \<^verbatim>\<open>family\<close>
  is the very object stored in the registry under \<open>fid\<close>, so the assignment changes
  both; the function returns the changed family and the changed registry.\<close>

definition set_defaults ::
  "pylib \<Rightarrow> pyval \<Rightarrow> string \<Rightarrow> pyval \<Rightarrow> real \<Rightarrow> real \<Rightarrow> error + (pyval \<times> pyval)" where
  "set_defaults L data fid family default_w default_h =
     (case getitem family ''parameters'' of Inl e \<Rightarrow> Inl e
      | Inr params \<Rightarrow> (case setitem params ''Width'' (PFloat (round6 L default_w)) of Inl e \<Rightarrow> Inl e
      | Inr params1 \<Rightarrow> (case setitem params1 ''Height'' (PFloat (round6 L default_h)) of Inl e \<Rightarrow> Inl e
      | Inr params2 \<Rightarrow> (case setitem family ''parameters'' params2 of Inl e \<Rightarrow> Inl e
      | Inr family' \<Rightarrow> (case getitem data ''families'' of Inl e \<Rightarrow> Inl e
      | Inr fams \<Rightarrow> (case setitem fams fid family' of Inl e \<Rightarrow> Inl e
      | Inr fams' \<Rightarrow> (case setitem data ''families'' fams' of Inl e \<Rightarrow> Inl e
      | Inr data' \<Rightarrow> Inr (family', data'))))))))"

text \<open>\<^verbatim>\<open>reg.data.get("families", {})\<close>.\<close>

definition families_of :: "pyval \<Rightarrow> error + pyval" where
  "families_of data =
     (case dict_of data of Inl e \<Rightarrow> Inl e
      | Inr kvs \<Rightarrow> Inr (case map_of kvs ''families'' of None \<Rightarrow> PDict [] | Some f \<Rightarrow> f))"

text \<open>\<^verbatim>\<open>cmd_sync_family_instances\<close>; \<open>choice\<close> is the name picked in the list box.\<close>

definition cmd_sync_family_instances ::
  "pylib \<Rightarrow> string option \<Rightarrow> real option \<Rightarrow> real option \<Rightarrow> ui list prog" where
  "cmd_sync_family_instances L choice w_answer h_answer doc =
     (let data = DynamicBlockRegistry_load L doc in
      bnd (lift (families_of data)) (\<lambda>families.
        if \<not> truthy families
        then ret [MessageBox ''No families available.'' ''Dynamic Blocks'']
        else
      bnd (lift (dict_of families)) (\<lambda>fams.
      bnd (lift (family_names fams)) (\<lambda>ns.
      bnd (lift (sorted_names ns)) (\<lambda>names.
        case choice of None \<Rightarrow> ret []
        | Some nm \<Rightarrow> if nm = [] then ret [] else
      bnd (lift (find_family_by_name L data nm)) (\<lambda>found.
        case found of None \<Rightarrow> ret []
        | Some (fid, family) \<Rightarrow> if \<not> truthy family then ret [] else
      bnd (lift (getitem family ''parameters'')) (\<lambda>params.
      bnd (lift (getitem params ''Width'')) (\<lambda>pw.
      bnd (lift (float L pw)) (\<lambda>_.
        case w_answer of None \<Rightarrow> ret []
        | Some default_w \<Rightarrow>
      bnd (lift (getitem family ''parameters'')) (\<lambda>params'.
      bnd (lift (getitem params' ''Height'')) (\<lambda>ph.
      bnd (lift (float L ph)) (\<lambda>_.
        case h_answer of None \<Rightarrow> ret []
        | Some default_h \<Rightarrow>
      bnd (lift (set_defaults L data fid family default_w default_h)) (\<lambda>(family', data').
      bnd (lift (iter_instances_for_family data' fid)) (\<lambda>updates.
      bnd (sync_loop L family' fid updates data') (\<lambda>data''.
      bnd (save L data'') (\<lambda>_.
        ret [Redraw,
             MessageBox (''Family '' @ quoted nm @ '' synchronized.'') ''Dynamic Blocks'']
      ))))))))))))))) doc)"

text \<open>The number of times a round of the loop saves the registry, that is, the number
  of its \<^verbatim>\<open>remove_instance\<close> and \<^verbatim>\<open>add_instance\<close> calls: one when it prunes, two
  when it replaces, none otherwise; and the sum over the rounds of a run of the loop.\<close>

definition round_writes :: "pylib \<Rightarrow> pyval \<Rightarrow> string \<times> pyval \<Rightarrow> host_doc \<Rightarrow> nat" where
  "round_writes L family u doc =
     (case u of (obj_id, info) \<Rightarrow>
        if objects doc obj_id = None then 1
        else (case getitem info ''values'' of
                Inl e \<Rightarrow> 0
              | Inr vals \<Rightarrow>
                  (case fst (replace_instance_geometry L obj_id family vals doc) of
                     Inl e \<Rightarrow> 0
                   | Inr new_id \<Rightarrow> if truthy new_id \<and> new_id \<noteq> PStr obj_id then 2 else 0)))"

fun loop_writes ::
  "pylib \<Rightarrow> pyval \<Rightarrow> string \<Rightarrow> (string \<times> pyval) list \<Rightarrow> pyval \<Rightarrow> host_doc \<Rightarrow> nat" where
  "loop_writes L family fid [] data doc = 0"
| "loop_writes L family fid (u # us) data doc =
     round_writes L family u doc
     + (case sync_step L family fid u data doc of
          (Inl e, doc') \<Rightarrow> 0
        | (Inr data', doc') \<Rightarrow> loop_writes L family fid us data' doc')"


text \<open>The entries of the instances mapping that \<^verbatim>\<open>iter_instances_for_family\<close> yields
  for a family id, in the order of the mapping.\<close>

definition instances_of :: "string \<Rightarrow> (string \<times> pyval) list \<Rightarrow> (string \<times> pyval) list" where
  "instances_of fid insts = filter (\<lambda>kv. getitem (snd kv) ''family_id'' = Inr (PStr fid)) insts"

text \<open>The instances mapping after a synchronisation in which the entry \<open>m\<close> was pruned
  and the replacement of \<open>s\<close> returned \<open>new_id\<close>: when \<open>new_id\<close> is an identity, \<open>s\<close> is
  removed and \<open>new_id\<close> registered with the family id and the values of \<open>s\<close>; when it is
  \<^verbatim>\<open>False\<close>, the entry of \<open>s\<close> stays as it was.\<close>

definition synced_instances ::
  "string \<Rightarrow> string \<Rightarrow> string \<Rightarrow> pyval \<Rightarrow> pyval \<Rightarrow> (string \<times> pyval) list \<Rightarrow> (string \<times> pyval) list" where
  "synced_instances fid m s vs new_id insts =
     (case new_id of
        PStr g \<Rightarrow> dict_set (dict_pop (dict_pop insts m) s) g
                   (PDict [(''family_id'', PStr fid), (''values'', vs)])
      | _ \<Rightarrow> dict_pop insts m)"


section \<open>A stand-in library and an empty document for worked examples\<close>

text \<open>The JSON codec is given by a table of texts and the values they denote, the
  printing of values by a second table. Integers convert to floats exactly, and lowering
  a string folds the letters A to Z only.\<close>

definition ascii_lower :: "char \<Rightarrow> char" where
  "ascii_lower c =
     (if 65 \<le> (of_char c :: nat) \<and> (of_char c :: nat) \<le> 90
      then char_of (of_char c + (32 :: nat)) else c)"

definition table_lib :: "(string \<times> pyval) list \<Rightarrow> (pyval \<times> string) list \<Rightarrow> pylib" where
  "table_lib texts prints =
     \<lparr>json_loads = map_of texts,
      json_dumps = (\<lambda>v. case List.find (\<lambda>p. snd p = v) texts of
                          None \<Rightarrow> ''null'' | Some p \<Rightarrow> fst p),
      repr = (\<lambda>v. case map_of prints v of None \<Rightarrow> ''?'' | Some s \<Rightarrow> s),
      float_of_str = (\<lambda>s. None),
      float_of_int = (\<lambda>i. Some (of_int i)),
      round6 = (\<lambda>x. x),
      str_lower = map ascii_lower\<rparr>"

definition blank_doc :: host_doc where
  "blank_doc =
     \<lparr>strings = Map.empty, string_writes = [], objects = Map.empty, idefs = [],
      can_delete = (\<lambda>g. True), id_supply = []\<rparr>"

definition panel :: pyval where
  "panel = PDict [(''name'', PStr ''Panel''), (''family_type'', PStr ''rectangle''),
                  (''parameters'', PDict [(''Width'', PFloat 1), (''Height'', PFloat 2)])]"

definition sample_values :: pyval where
  "sample_values = PDict [(''Width'', PFloat 1), (''Height'', PFloat 2)]"

definition edited_values :: pyval where
  "edited_values = PDict [(''Width'', PFloat 3), (''Height'', PFloat 2)]"

text \<open>A registry with the family Panel and one instance of it, and the same registry
  after the instance \<open>a1\<close> has been replaced by \<open>b2\<close> with a width of 3.\<close>

definition sample_registry :: pyval where
  "sample_registry =
     PDict [(''families'', PDict [(''f1'', panel)]),
            (''instances'', PDict [(''a1'', PDict [(''family_id'', PStr ''f1''),
                                                   (''values'', sample_values)])])]"

definition edited_registry :: pyval where
  "edited_registry =
     PDict [(''families'', PDict [(''f1'', panel)]),
            (''instances'', PDict [(''b2'', PDict [(''family_id'', PStr ''f1''),
                                                   (''values'', edited_values)])])]"

text \<open>The sample registry after its only instance has been pruned.\<close>

definition pruned_registry :: pyval where
  "pruned_registry = PDict [(''families'', PDict [(''f1'', panel)]), (''instances'', PDict [])]"

text \<open>A registry whose only family is stored under the empty string as its id, and
  the same registry after a second family named PANEL has been added.\<close>

definition unkeyed_registry :: pyval where
  "unkeyed_registry = PDict [(''families'', PDict [([], panel)]), (''instances'', PDict [])]"

definition duplicated_registry :: pyval where
  "duplicated_registry =
     PDict [(''families'',
             PDict [([], panel),
                    (''f2'', PDict [(''name'', PStr ''PANEL''),
                                    (''family_type'', PStr ''rectangle''),
                                    (''parameters'', PDict [(''Width'', PFloat 1),
                                                            (''Height'', PFloat 2)])])]),
            (''instances'', PDict [])]"

text \<open>A registry with two instances of the family Panel, the same registry after
  \<open>a1\<close> has been replaced by \<open>b2\<close> and \<open>a2\<close> pruned, and a registry whose family
  has a type without a geometry factory.\<close>

definition twin_registry :: pyval where
  "twin_registry =
     PDict [(''families'', PDict [(''f1'', panel)]),
            (''instances'',
             PDict [(''a1'', PDict [(''family_id'', PStr ''f1''), (''values'', sample_values)]),
                    (''a2'', PDict [(''family_id'', PStr ''f1''), (''values'', sample_values)])])]"

definition synced_registry :: pyval where
  "synced_registry =
     PDict [(''families'', PDict [(''f1'', panel)]),
            (''instances'',
             PDict [(''b2'', PDict [(''family_id'', PStr ''f1''), (''values'', sample_values)])])]"

definition disc :: pyval where
  "disc = PDict [(''name'', PStr ''Panel''), (''family_type'', PStr ''circle''),
                 (''parameters'', PDict [(''Width'', PFloat 1), (''Height'', PFloat 2)])]"

definition disc_registry :: pyval where
  "disc_registry =
     PDict [(''families'', PDict [(''f1'', disc)]),
            (''instances'',
             PDict [(''a1'', PDict [(''family_id'', PStr ''f1''), (''values'', sample_values)]),
                    (''a2'', PDict [(''family_id'', PStr ''f1''), (''values'', sample_values)])])]"

definition sample_lib :: pylib where
  "sample_lib =
     table_lib [(''registry'', sample_registry), (''edited registry'', edited_registry),
                (''pruned registry'', pruned_registry),
                (''unkeyed registry'', unkeyed_registry),
                (''duplicated registry'', duplicated_registry),
                (''{families: null}'', PDict [(''families'', PNone)]),
                (''twin registry'', twin_registry), (''synced registry'', synced_registry),
                (''disc registry'', disc_registry)]
               [(PFloat 1, ''1.0''), (PFloat 2, ''2.0''), (PFloat 3, ''3.0'')]"

text \<open>A document that stores the sample registry and holds the placed instance \<open>a1\<close>;
  the host will issue the identity \<open>b2\<close> next. In \<open>locked_doc\<close> the host refuses
  every deletion, in \<open>lost_doc\<close> it fails to create the next placed object.\<close>

definition sample_doc :: host_doc where
  "sample_doc =
     blank_doc\<lparr>strings := [(STORE_SECTION, STORE_KEY) \<mapsto> ''registry''],
               objects := [''a1'' \<mapsto> InstanceObject 0 [1, 0, 0, 5, 0, 1, 0, 0, 0, 0, 1, 0, 0, 0, 0, 1] []],
               id_supply := [''b2'']\<rparr>"


definition null_doc :: host_doc where
  "null_doc = blank_doc\<lparr>strings := [(STORE_SECTION, STORE_KEY) \<mapsto> ''{families: null}'']\<rparr>"

text \<open>Documents that store the registries with two instances; the placed object of
  \<open>a1\<close> exists, that of \<open>a2\<close> does not.\<close>

definition twin_doc :: host_doc where
  "twin_doc = sample_doc\<lparr>strings := [(STORE_SECTION, STORE_KEY) \<mapsto> ''twin registry'']\<rparr>"

definition disc_doc :: host_doc where
  "disc_doc = sample_doc\<lparr>strings := [(STORE_SECTION, STORE_KEY) \<mapsto> ''disc registry'']\<rparr>"


definition lost_doc :: host_doc where
  "lost_doc = sample_doc\<lparr>id_supply := [guid_empty]\<rparr>"

text \<open>In \<open>stale_doc\<close> the placed object of \<open>a1\<close> is no longer in the document.\<close>

definition stale_doc :: host_doc where
  "stale_doc = sample_doc\<lparr>objects := Map.empty\<rparr>"

section \<open>Loading and saving\<close>

lemma setdefault_keys: "fst ` set (setdefault kvs k v) = insert k (fst ` set kvs)"
  by (auto simp: setdefault_def)

lemma getitem_present: "k \<in> fst ` set kvs \<Longrightarrow> \<exists>v. getitem (PDict kvs) k = Inr v"
  by (cases "map_of kvs k") (auto simp: map_of_eq_None_iff)

lemma load_total:
  "\<exists>kvs. DynamicBlockRegistry_load L doc = PDict kvs \<and>
         ''families'' \<in> fst ` set kvs \<and> ''instances'' \<in> fst ` set kvs"
  by (auto simp: DynamicBlockRegistry_load_def empty_registry_def load_try_def setdefault_keys
      split: option.splits sum.splits pyval.splits)

text \<open>
  Claim C5. Whenever the storage slot is absent, holds the empty string, or holds a text
  that \<^verbatim>\<open>json.loads\<close> rejects, loading yields the empty registry
  \<^verbatim>\<open>{"families": {}, "instances": {}}\<close>. Loading returns a value in every case, so it
  never raises.
\<close>

theorem load_fail_open:
  assumes "GetValue doc STORE_SECTION STORE_KEY = None
         \<or> GetValue doc STORE_SECTION STORE_KEY = Some []
         \<or> (\<exists>raw. GetValue doc STORE_SECTION STORE_KEY = Some raw \<and> json_loads L raw = None)"
  shows "DynamicBlockRegistry_load L doc =
           PDict [(''families'', PDict []), (''instances'', PDict [])]"
  using assms
  by (auto simp: DynamicBlockRegistry_load_def empty_registry_def load_try_def)

theorem load_fail_open_witness:
  "GetValue (blank_doc\<lparr>strings := [(STORE_SECTION, STORE_KEY) \<mapsto> ''{oops'']\<rparr>)
     STORE_SECTION STORE_KEY = Some ''{oops''
   \<and> json_loads (table_lib [] []) ''{oops'' = None
   \<and> DynamicBlockRegistry_load (table_lib [] [])
        (blank_doc\<lparr>strings := [(STORE_SECTION, STORE_KEY) \<mapsto> ''{oops'']\<rparr>)
      = PDict [(''families'', PDict []), (''instances'', PDict [])]"
  using load_fail_open [of "blank_doc\<lparr>strings := [(STORE_SECTION, STORE_KEY) \<mapsto> ''{oops'']\<rparr>"
      "table_lib [] []"]
  by (simp add: GetValue_def table_lib_def blank_doc_def)

text \<open>
  Claim C10, as the code has it. When the stored text parses to a JSON object, loading
  returns the parsed entries, followed by an entry with an empty mapping for each of the
  keys \<^verbatim>\<open>families\<close> and \<^verbatim>\<open>instances\<close> that the object lacks; so the loaded registry
  has an entry under both keys. An entry the object already has is kept as it is,
  whatever its value.
\<close>

theorem load_fills_missing_keys:
  assumes "GetValue doc STORE_SECTION STORE_KEY = Some raw" and "raw \<noteq> []"
    and "json_loads L raw = Some (PDict kvs)"
  shows "DynamicBlockRegistry_load L doc =
           PDict (kvs
             @ (if ''families'' \<in> fst ` set kvs then [] else [(''families'', PDict [])])
             @ (if ''instances'' \<in> fst ` set kvs then [] else [(''instances'', PDict [])]))
         \<and> (\<exists>f i. getitem (DynamicBlockRegistry_load L doc) ''families'' = Inr f
                \<and> getitem (DynamicBlockRegistry_load L doc) ''instances'' = Inr i)"
proof -
  let ?filled = "kvs
             @ (if ''families'' \<in> fst ` set kvs then [] else [(''families'', PDict [])])
             @ (if ''instances'' \<in> fst ` set kvs then [] else [(''instances'', PDict [])])"
  have eq: "DynamicBlockRegistry_load L doc = PDict ?filled"
    using assms by (auto simp: DynamicBlockRegistry_load_def load_try_def setdefault_def)
  have "''families'' \<in> fst ` set ?filled"
    by auto
  then have f: "\<exists>f. getitem (PDict ?filled) ''families'' = Inr f"
    by (rule getitem_present)
  have "''instances'' \<in> fst ` set ?filled"
    by auto
  then have i: "\<exists>i. getitem (PDict ?filled) ''instances'' = Inr i"
    by (rule getitem_present)
  from f i show ?thesis unfolding eq by blast
qed

theorem load_fills_missing_keys_witness:
  "DynamicBlockRegistry_load
     (table_lib [(''{families: {f1: Panel}}'', PDict [(''families'', PDict [(''f1'', panel)])])] [])
     (blank_doc\<lparr>strings := [(STORE_SECTION, STORE_KEY) \<mapsto> ''{families: {f1: Panel}}'']\<rparr>)
   = PDict [(''families'', PDict [(''f1'', panel)]), (''instances'', PDict [])]"
  using load_fills_missing_keys
    [of "blank_doc\<lparr>strings := [(STORE_SECTION, STORE_KEY) \<mapsto> ''{families: {f1: Panel}}'']\<rparr>"
        "''{families: {f1: Panel}}''"
        "table_lib [(''{families: {f1: Panel}}'', PDict [(''families'', PDict [(''f1'', panel)])])] []"
        "[(''families'', PDict [(''f1'', panel)])]"]
  by (simp add: GetValue_def table_lib_def blank_doc_def)

text \<open>The claim as stated fails: the stored object lacks \<open>instances\<close> and has null
  under \<open>families\<close>; the loaded registry keeps the null, which is not a mapping.\<close>

theorem load_mapping_counterexample:
  "GetValue null_doc STORE_SECTION STORE_KEY = Some ''{families: null}''
   \<and> json_loads sample_lib ''{families: null}'' = Some (PDict [(''families'', PNone)])
   \<and> DynamicBlockRegistry_load sample_lib null_doc
       = PDict [(''families'', PNone), (''instances'', PDict [])]
   \<and> getitem (DynamicBlockRegistry_load sample_lib null_doc) ''families'' = Inr PNone
   \<and> dict_of PNone = Inl AttributeError"
  by (simp add: DynamicBlockRegistry_load_def GetValue_def null_doc_def blank_doc_def
      load_try_def sample_lib_def table_lib_def setdefault_def)

text \<open>
  Claim C6. For a registry state (a dict with the keys \<^verbatim>\<open>families\<close> and \<^verbatim>\<open>instances\<close>)
  that the JSON codec serialises to a non-empty text and reads back as the same value,
  saving it and then loading from the same storage gives the saved state again.
\<close>

theorem save_load_roundtrip:
  assumes "json_loads L (json_dumps L (PDict kvs)) = Some (PDict kvs)"
    and "json_dumps L (PDict kvs) \<noteq> []"
    and "''families'' \<in> fst ` set kvs" and "''instances'' \<in> fst ` set kvs"
  shows "DynamicBlockRegistry_load L (snd (save L (PDict kvs) doc)) = PDict kvs"
  using assms
  by (simp add: DynamicBlockRegistry_load_def load_try_def setdefault_def save_def
      SetString_def GetValue_def)

theorem save_load_roundtrip_witness:
  "DynamicBlockRegistry_load
     (table_lib [(''{families: {f1: Panel}, instances: {}}'',
                  PDict [(''families'', PDict [(''f1'', panel)]), (''instances'', PDict [])])] [])
     (snd (save
        (table_lib [(''{families: {f1: Panel}, instances: {}}'',
                  PDict [(''families'', PDict [(''f1'', panel)]), (''instances'', PDict [])])] [])
        (PDict [(''families'', PDict [(''f1'', panel)]), (''instances'', PDict [])])
        blank_doc))
   = PDict [(''families'', PDict [(''f1'', panel)]), (''instances'', PDict [])]"
  using save_load_roundtrip
    [of "table_lib [(''{families: {f1: Panel}, instances: {}}'',
                  PDict [(''families'', PDict [(''f1'', panel)]), (''instances'', PDict [])])] []"
        "[(''families'', PDict [(''f1'', panel)]), (''instances'', PDict [])]" blank_doc]
  by (simp add: table_lib_def)

section \<open>The canonical definition name\<close>

lemma format_items_cong:
  "map_of a = map_of b \<Longrightarrow> format_items L (PDict a) ks = format_items L (PDict b) ks"
  by (induction ks) (simp_all split: sum.splits option.splits)

lemma format_items_total:
  "set ks \<subseteq> fst ` set a \<Longrightarrow> \<exists>ts. format_items L (PDict a) ks = Inr ts"
proof (induction ks)
  case Nil
  then show ?case by simp
next
  case (Cons k ks)
  then obtain ts where "format_items L (PDict a) ks = Inr ts" by auto
  moreover from Cons.prems obtain v where "map_of a k = Some v"
    by (cases "map_of a k") (auto simp: map_of_eq_None_iff)
  ultimately show ?case by simp
qed

lemma sorted_keys_eq:
  assumes "distinct (map fst a)" "distinct (map fst b)" "set a = set b"
  shows "sort (map fst a) = sort (map fst b)"
proof (rule sorted_distinct_set_unique)
  show "set (sort (map fst a)) = set (sort (map fst b))"
    using assms(3) by simp
qed (simp_all add: assms)

text \<open>
  Claim C3. Two value mappings (dicts, so their keys are distinct) that hold the same
  key-value pairs, in whatever order, get the same definition name under every family
  name; and \<^verbatim>\<open>definition_name\<close> does return a name for them.
\<close>

theorem definition_name_order_independent:
  assumes "distinct (map fst a)" and "distinct (map fst b)" and "set a = set b"
  shows "\<exists>s. definition_name L family_name (PDict a) = Inr s
           \<and> definition_name L family_name (PDict b) = Inr s"
proof -
  have m: "map_of a = map_of b" using assms by (rule map_of_inject_set[THEN iffD2])
  have k: "sort (map fst a) = sort (map fst b)" using assms by (rule sorted_keys_eq)
  obtain ts where t: "format_items L (PDict a) (sort (map fst a)) = Inr ts"
    using format_items_total[of "sort (map fst a)" a L] by auto
  then have "format_items L (PDict b) (sort (map fst b)) = Inr ts"
    using format_items_cong[OF m] k by simp
  with t show ?thesis by (simp add: definition_name_def)
qed

theorem definition_name_order_independent_witness:
  "definition_name (table_lib [] [(PFloat 1, ''1.0''), (PFloat 2, ''2.0'')]) (PStr ''Panel'')
     (PDict [(''Width'', PFloat 1), (''Height'', PFloat 2)]) = Inr ''DB_Panel_Height=2.0_Width=1.0''
   \<and> definition_name (table_lib [] [(PFloat 1, ''1.0''), (PFloat 2, ''2.0'')]) (PStr ''Panel'')
     (PDict [(''Height'', PFloat 2), (''Width'', PFloat 1)]) = Inr ''DB_Panel_Height=2.0_Width=1.0''"
  using definition_name_order_independent
    [of "[(''Width'', PFloat 1), (''Height'', PFloat 2)]"
        "[(''Height'', PFloat 2), (''Width'', PFloat 1)]"
        "table_lib [] [(PFloat 1, ''1.0''), (PFloat 2, ''2.0'')]" "PStr ''Panel''"]
  by (simp add: definition_name_def table_lib_def less_eq_char_def less_char_def)

section \<open>The definition cache\<close>

lemma bnd_ret [simp]: "bnd (ret a) f = f a"
  by (rule ext) (simp add: bnd_def ret_def)

lemma bnd_lift_Inr [simp]: "bnd (lift (Inr a)) f = f a"
  by (rule ext) (simp add: bnd_def lift_def)

lemma bnd_lift_Inl [simp]: "bnd (lift (Inl e)) f doc = (Inl e, doc)"
  by (simp add: bnd_def lift_def)

lemma bnd_Inr: "m doc = (Inr a, doc') \<Longrightarrow> bnd m f doc = f a doc'"
  by (simp add: bnd_def)

lemma bnd_Inl: "m doc = (Inl e, doc') \<Longrightarrow> bnd m f doc = (Inl e, doc')"
  by (simp add: bnd_def)

lemma Find_from_append:
  "Find_from i ds nm = None \<Longrightarrow>
   Find_from i (ds @ [Some d]) nm = (if idef_name d = nm then Some (int (i + length ds)) else None)"
  by (induction i ds nm rule: Find_from.induct) (auto split: if_splits)

lemma ensure_definition_hit:
  assumes "getitem family ''name'' = Inr fname" and "definition_name L fname values = Inr nm"
    and "InstanceDefinitions_Find doc nm = Some index"
  shows "ensure_definition L family values doc = (Inr index, doc)"
  using assms by (simp add: ensure_definition_def ret_def)

lemma ensure_definition_miss:
  assumes "getitem family ''name'' = Inr fname" and "definition_name L fname values = Inr nm"
    and "InstanceDefinitions_Find doc nm = None"
    and "getitem family ''family_type'' = Inr ftype"
    and "build_geometry L ftype values = Inr geometry"
  shows "ensure_definition L family values doc =
           InstanceDefinitions_Add nm ''Dynamic block variant'' (0, 0, 0) geometry
             (map (\<lambda>_. CreateDefaultAttributes) geometry) doc"
  using assms by (simp add: ensure_definition_def)

lemma Find_after_Add:
  assumes "InstanceDefinitions_Find doc nm = None"
  shows "InstanceDefinitions_Find (snd (InstanceDefinitions_Add nm descr base g attrs doc)) nm
           = Some (int (length (idefs doc)))"
  using Find_from_append[of 0 "idefs doc" nm] assms
  by (simp add: InstanceDefinitions_Find_def InstanceDefinitions_Add_def)

text \<open>
  Claim C4. If \<^verbatim>\<open>ensure_definition\<close> returns a handle for a family and a value mapping,
  a second call with the same arguments in the document the first call left returns the
  same handle and leaves the document as it is: it finds the definition by its name, so
  it neither builds geometry nor adds a definition. The first call added at most one
  definition, so the two calls together add at most one.
\<close>

theorem ensure_definition_idempotent:
  assumes "ensure_definition L family values doc = (Inr index, doc1)"
  shows "ensure_definition L family values doc1 = (Inr index, doc1)
         \<and> (idefs doc1 = idefs doc \<or> (\<exists>d. idefs doc1 = idefs doc @ [Some d]))
         \<and> (\<exists>fname nm. getitem family ''name'' = Inr fname
                \<and> definition_name L fname values = Inr nm
                \<and> InstanceDefinitions_Find doc1 nm = Some index)"
proof -
  from assms obtain fname where f: "getitem family ''name'' = Inr fname"
    by (cases "getitem family ''name''") (auto simp: ensure_definition_def)
  from assms f obtain nm where n: "definition_name L fname values = Inr nm"
    by (cases "definition_name L fname values") (auto simp: ensure_definition_def)
  show ?thesis
  proof (cases "InstanceDefinitions_Find doc nm")
    case (Some i)
    with assms f n have "index = i" "doc1 = doc"
      by (simp_all add: ensure_definition_hit)
    with Some f n show ?thesis by (simp add: ensure_definition_hit)
  next
    case None
    from assms f n None obtain ftype where t: "getitem family ''family_type'' = Inr ftype"
      by (cases "getitem family ''family_type''") (auto simp: ensure_definition_def)
    from assms f n None t obtain g where g: "build_geometry L ftype values = Inr g"
      by (cases "build_geometry L ftype values") (auto simp: ensure_definition_def)
    let ?add = "InstanceDefinitions_Add nm ''Dynamic block variant'' (0, 0, 0) g
                  (map (\<lambda>_. CreateDefaultAttributes) g) doc"
    from assms have r: "?add = (Inr index, doc1)"
      by (simp add: ensure_definition_miss[OF f n None t g])
    then have i: "index = int (length (idefs doc))" and d: "doc1 = snd ?add"
      by (auto simp: InstanceDefinitions_Add_def)
    have h: "InstanceDefinitions_Find doc1 nm = Some index"
      unfolding d i using None by (rule Find_after_Add)
    then have "ensure_definition L family values doc1 = (Inr index, doc1)"
      using f n by (simp add: ensure_definition_hit)
    moreover have "\<exists>d. idefs doc1 = idefs doc @ [Some d]"
      unfolding d by (simp add: InstanceDefinitions_Add_def)
    ultimately show ?thesis using f n h by simp
  qed
qed

theorem ensure_definition_idempotent_witness:
  "ensure_definition (table_lib [] [(PFloat 1, ''1.0''), (PFloat 2, ''2.0'')]) panel
     (PDict [(''Width'', PFloat 1), (''Height'', PFloat 2)]) blank_doc
   = (Inr 0, blank_doc\<lparr>idefs :=
        [Some \<lparr>idef_name = ''DB_Panel_Height=2.0_Width=1.0'',
               idef_description = ''Dynamic block variant'', idef_base_point = (0, 0, 0),
               idef_geometry = make_rectangle_geometry 1 2,
               idef_attributes = [CreateDefaultAttributes]\<rparr>]\<rparr>)
   \<and> ensure_definition (table_lib [] [(PFloat 1, ''1.0''), (PFloat 2, ''2.0'')]) panel
     (PDict [(''Width'', PFloat 1), (''Height'', PFloat 2)])
     (blank_doc\<lparr>idefs :=
        [Some \<lparr>idef_name = ''DB_Panel_Height=2.0_Width=1.0'',
               idef_description = ''Dynamic block variant'', idef_base_point = (0, 0, 0),
               idef_geometry = make_rectangle_geometry 1 2,
               idef_attributes = [CreateDefaultAttributes]\<rparr>]\<rparr>)
   = (Inr 0, blank_doc\<lparr>idefs :=
        [Some \<lparr>idef_name = ''DB_Panel_Height=2.0_Width=1.0'',
               idef_description = ''Dynamic block variant'', idef_base_point = (0, 0, 0),
               idef_geometry = make_rectangle_geometry 1 2,
               idef_attributes = [CreateDefaultAttributes]\<rparr>]\<rparr>)"
proof -
  have first: "ensure_definition (table_lib [] [(PFloat 1, ''1.0''), (PFloat 2, ''2.0'')]) panel
     (PDict [(''Width'', PFloat 1), (''Height'', PFloat 2)]) blank_doc
   = (Inr 0, blank_doc\<lparr>idefs :=
        [Some \<lparr>idef_name = ''DB_Panel_Height=2.0_Width=1.0'',
               idef_description = ''Dynamic block variant'', idef_base_point = (0, 0, 0),
               idef_geometry = make_rectangle_geometry 1 2,
               idef_attributes = [CreateDefaultAttributes]\<rparr>]\<rparr>)"
    by (simp add: ensure_definition_def panel_def definition_name_def table_lib_def
        less_eq_char_def less_char_def InstanceDefinitions_Find_def blank_doc_def
        build_geometry_def InstanceDefinitions_Add_def make_rectangle_geometry_def)
  from ensure_definition_idempotent [OF first] first show ?thesis by simp
qed

section \<open>Instance replacement\<close>

lemma ensure_definition_frame:
  assumes "ensure_definition L family values doc = (r, doc1)"
  shows "doc1 = doc \<or> (\<exists>d. doc1 = doc\<lparr>idefs := idefs doc @ [Some d]\<rparr>)"
  using assms
  by (auto simp: ensure_definition_def ret_def InstanceDefinitions_Add_def bnd_def lift_def
      split: sum.splits option.splits prod.splits)

lemma replace_not_found:
  "objects doc instance_id = None \<Longrightarrow>
   replace_instance_geometry L instance_id family values doc = (Inr (PBool False), doc)"
  by (simp add: replace_instance_geometry_def)

lemma replace_not_instance:
  "objects doc instance_id = Some (OtherObject a) \<Longrightarrow>
   replace_instance_geometry L instance_id family values doc = (Inr (PBool False), doc)"
  by (simp add: replace_instance_geometry_def)

lemma replace_delete_failed:
  "\<not> can_delete doc instance_id \<Longrightarrow>
   replace_instance_geometry L instance_id family values doc = (Inr (PBool False), doc)"
  by (simp add: replace_instance_geometry_def Objects_Delete_def bnd_def ret_def
      split: option.splits doc_object.splits)

lemma replace_deleted:
  assumes "objects doc instance_id = Some (InstanceObject i xf attr)"
    and "can_delete doc instance_id"
  shows "replace_instance_geometry L instance_id family values doc =
     bnd (ensure_definition L family values) (\<lambda>idef_index.
     bnd (AddInstanceObject idef_index xf attr) (\<lambda>new_id.
       if new_id = guid_empty then ret (PBool False) else ret (PStr new_id)))
     (doc\<lparr>objects := (objects doc)(instance_id := None)\<rparr>)"
  using assms by (simp add: replace_instance_geometry_def Objects_Delete_def bnd_def)

text \<open>
  Claim C2, as the code has it. When the old placed object is deleted, the definition is
  resolved, and the host then fails to create the new placed object,
  \<^verbatim>\<open>replace_instance_geometry\<close> returns \<^verbatim>\<open>False\<close>, which is also what it returns
  when the object is not found, is not an instance object, or cannot be deleted; the old
  object is gone from the document and nothing has taken its place.
\<close>

theorem replacement_lost_returns_false:
  assumes "objects doc instance_id = Some (InstanceObject i xf attr)"
    and "can_delete doc instance_id"
    and "fst (ensure_definition L family values
               (doc\<lparr>objects := (objects doc)(instance_id := None)\<rparr>)) = Inr index"
    and "id_supply doc = [] \<or> hd (id_supply doc) = guid_empty"
  shows "fst (replace_instance_geometry L instance_id family values doc) = Inr (PBool False)
       \<and> objects (snd (replace_instance_geometry L instance_id family values doc))
           = (objects doc)(instance_id := None)
       \<and> (\<forall>d. objects d instance_id = None \<or> (\<exists>a. objects d instance_id = Some (OtherObject a))
              \<or> \<not> can_delete d instance_id \<longrightarrow>
            fst (replace_instance_geometry L instance_id family values d) = Inr (PBool False))"
proof -
  let ?d = "doc\<lparr>objects := (objects doc)(instance_id := None)\<rparr>"
  obtain doc1 where e: "ensure_definition L family values ?d = (Inr index, doc1)"
    using assms(3) by (cases "ensure_definition L family values ?d") auto
  from ensure_definition_frame[OF e]
  have fr: "objects doc1 = objects ?d" "id_supply doc1 = id_supply doc" by auto
  have "replace_instance_geometry L instance_id family values doc =
          (Inr (PBool False), doc1\<lparr>id_supply := tl (id_supply doc)\<rparr>)"
    using assms(4) fr
    by (cases "id_supply doc")
       (auto simp: replace_deleted[OF assms(1,2)] e AddInstanceObject_def bnd_def ret_def)
  then show ?thesis
    using fr by (auto simp: replace_not_found replace_not_instance replace_delete_failed)
qed

lemma sample_ensure:
  "idefs d = [] \<Longrightarrow>
   ensure_definition sample_lib panel sample_values d
   = (Inr 0, d\<lparr>idefs :=
        [Some \<lparr>idef_name = ''DB_Panel_Height=2.0_Width=1.0'',
               idef_description = ''Dynamic block variant'', idef_base_point = (0, 0, 0),
               idef_geometry = make_rectangle_geometry 1 2,
               idef_attributes = [CreateDefaultAttributes]\<rparr>]\<rparr>)"
  by (simp add: ensure_definition_def panel_def sample_values_def definition_name_def
      sample_lib_def table_lib_def less_eq_char_def less_char_def InstanceDefinitions_Find_def
      build_geometry_def InstanceDefinitions_Add_def make_rectangle_geometry_def)

theorem replacement_lost_returns_false_witness:
  "fst (replace_instance_geometry sample_lib ''a1'' panel sample_values lost_doc)
     = Inr (PBool False)
   \<and> objects (snd (replace_instance_geometry sample_lib ''a1'' panel sample_values lost_doc))
       ''a1'' = None
   \<and> fst (replace_instance_geometry sample_lib ''a1'' panel sample_values blank_doc)
     = Inr (PBool False)"
proof -
  have o: "objects lost_doc ''a1''
             = Some (InstanceObject 0 [1, 0, 0, 5, 0, 1, 0, 0, 0, 0, 1, 0, 0, 0, 0, 1] [])"
    and c: "can_delete lost_doc ''a1''"
    and s: "id_supply lost_doc = [] \<or> hd (id_supply lost_doc) = guid_empty"
    and m: "(objects lost_doc)(''a1'' := None) = Map.empty"
    and b: "objects blank_doc ''a1'' = None" and i: "idefs lost_doc = []"
    by (auto simp: lost_doc_def sample_doc_def blank_doc_def)
  have e: "fst (ensure_definition sample_lib panel sample_values
                 (lost_doc\<lparr>objects := (objects lost_doc)(''a1'' := None)\<rparr>)) = Inr 0"
    by (simp add: sample_ensure i)
  from replacement_lost_returns_false [OF o c e s] b show ?thesis
    by simp
qed

text \<open>The claim as stated fails: the value returned when the replacement is lost is the
  value returned when the instance is not found.\<close>

theorem replacement_lost_counterexample:
  "objects lost_doc ''a1''
     = Some (InstanceObject 0 [1, 0, 0, 5, 0, 1, 0, 0, 0, 0, 1, 0, 0, 0, 0, 1] [])
   \<and> fst (replace_instance_geometry sample_lib ''a1'' panel sample_values lost_doc)
     = Inr (PBool False)
   \<and> objects (snd (replace_instance_geometry sample_lib ''a1'' panel sample_values lost_doc))
       ''a1'' = None
   \<and> objects blank_doc ''a1'' = None
   \<and> fst (replace_instance_geometry sample_lib ''a1'' panel sample_values blank_doc)
     = Inr (PBool False)"
proof -
  have m: "(objects lost_doc)(''a1'' := None) = Map.empty" and i: "idefs lost_doc = []"
    by (auto simp: lost_doc_def sample_doc_def blank_doc_def)
  have "ensure_definition sample_lib panel sample_values
          (lost_doc\<lparr>objects := (objects lost_doc)(''a1'' := None)\<rparr>)
        = (Inr 0, lost_doc\<lparr>objects := (objects lost_doc)(''a1'' := None), idefs :=
        [Some \<lparr>idef_name = ''DB_Panel_Height=2.0_Width=1.0'',
               idef_description = ''Dynamic block variant'', idef_base_point = (0, 0, 0),
               idef_geometry = make_rectangle_geometry 1 2,
               idef_attributes = [CreateDefaultAttributes]\<rparr>]\<rparr>)"
    by (simp add: sample_ensure i)
  then show ?thesis
    by (simp add: replace_instance_geometry_def Objects_Delete_def AddInstanceObject_def
        bnd_def ret_def lost_doc_def sample_doc_def blank_doc_def)
qed

section \<open>Registry operations on a registry that is a dict of dicts\<close>

lemma map_of_dict_set:
  "map_of (dict_set kvs k v) k' = (if k' = k then Some v else map_of kvs k')"
  by (induction kvs k v rule: dict_set.induct) auto

lemma map_of_dict_pop:
  "map_of (dict_pop kvs k) k' = (if k' = k then None else map_of kvs k')"
  by (induction kvs) (auto simp: dict_pop_def)

lemma dict_set_twice: "dict_set (dict_set kvs k a) k b = dict_set kvs k b"
  by (induction kvs k a rule: dict_set.induct) auto

lemma getitem_truthy: "getitem v k = Inr x \<Longrightarrow> truthy v"
  by (cases v) (auto split: option.splits)

lemma remove_instance_dict:
  assumes "map_of kvs ''instances'' = Some (PDict insts)"
  shows "remove_instance L (PDict kvs) (PStr k) doc =
     (Inr (PDict (dict_set kvs ''instances'' (PDict (dict_pop insts k)))),
      SetString STORE_SECTION STORE_KEY
        (json_dumps L (PDict (dict_set kvs ''instances'' (PDict (dict_pop insts k))))) doc)"
  using assms by (simp add: remove_instance_def save_def bnd_def ret_def)

lemma add_instance_dict:
  assumes "map_of kvs ''instances'' = Some (PDict insts)"
  shows "add_instance L (PDict kvs) (PStr k) fid values doc =
     (Inr (PDict (dict_set kvs ''instances''
             (PDict (dict_set insts k (PDict [(''family_id'', fid), (''values'', values)]))))),
      SetString STORE_SECTION STORE_KEY
        (json_dumps L (PDict (dict_set kvs ''instances''
             (PDict (dict_set insts k (PDict [(''family_id'', fid), (''values'', values)]))))))
        doc)"
  using assms by (simp add: add_instance_def save_def bnd_def ret_def)



lemma definition_name_dict: "\<exists>nm. definition_name L fname (PDict kvs) = Inr nm"
proof -
  obtain ts where "format_items L (PDict kvs) (sort (map fst kvs)) = Inr ts"
    using format_items_total[of "sort (map fst kvs)" kvs L] by auto
  then show ?thesis by (simp add: definition_name_def)
qed

lemma ensure_definition_rectangle:
  assumes "getitem family ''name'' = Inr fname"
    and "getitem family ''family_type'' = Inr (PStr ''rectangle'')"
    and "getitem values ''Width'' = Inr w" and "float L w = Inr x"
    and "getitem values ''Height'' = Inr h" and "float L h = Inr y"
  shows "\<exists>index doc1. ensure_definition L family values doc = (Inr index, doc1)"
proof -
  from assms(3) obtain kvs where v: "values = PDict kvs" by (cases "values") auto
  obtain nm where n: "definition_name L fname values = Inr nm"
    unfolding v using definition_name_dict by blast
  have g: "build_geometry L (PStr ''rectangle'') values = Inr (make_rectangle_geometry x y)"
    using assms by (simp add: build_geometry_def)
  show ?thesis
  proof (cases "InstanceDefinitions_Find doc nm")
    case None
    show ?thesis
      by (simp add: ensure_definition_miss[OF assms(1) n None assms(2) g]
          InstanceDefinitions_Add_def)
  next
    case (Some i)
    then show ?thesis by (simp add: ensure_definition_hit[OF assms(1) n])
  qed
qed

lemma replace_success:
  assumes "objects doc old = Some (InstanceObject i xf attr)"
    and "can_delete doc old"
    and "ensure_definition L family values (doc\<lparr>objects := (objects doc)(old := None)\<rparr>)
           = (Inr index, doc1)"
    and "id_supply doc = g # gs" and "g \<noteq> guid_empty"
  shows "replace_instance_geometry L old family values doc =
           (Inr (PStr g),
            doc1\<lparr>objects := (objects doc)(old := None, g \<mapsto> InstanceObject index xf attr),
                 id_supply := gs\<rparr>)"
proof -
  from ensure_definition_frame[OF assms(3)]
  have fr: "objects doc1 = (objects doc)(old := None)" "id_supply doc1 = id_supply doc" by auto
  show ?thesis
    using assms(4,5) fr
    by (simp add: replace_deleted[OF assms(1,2)] assms(3) AddInstanceObject_def bnd_def ret_def)
qed

section \<open>Editing an instance\<close>





section \<open>Creating a family\<close>

lemma lower_samples:
  "ascii_lower CHR ''P'' = CHR ''p''" "ascii_lower CHR ''A'' = CHR ''a''"
  "ascii_lower CHR ''N'' = CHR ''n''" "ascii_lower CHR ''E'' = CHR ''e''"
  "ascii_lower CHR ''L'' = CHR ''l''" "ascii_lower CHR ''a'' = CHR ''a''"
  "ascii_lower CHR ''n'' = CHR ''n''" "ascii_lower CHR ''e'' = CHR ''e''"
  "ascii_lower CHR ''l'' = CHR ''l''"
  by code_simp+

lemma sample_lower:
  "str_lower sample_lib ''Panel'' = ''panel''" "str_lower sample_lib ''PANEL'' = ''panel''"
  by (simp_all add: sample_lib_def table_lib_def lower_samples)




section \<open>Synchronising a family: writes to the storage slot\<close>

lemma replace_frame:
  assumes "replace_instance_geometry L i f v d = (r, d')"
  shows "string_writes d' = string_writes d \<and> strings d' = strings d"
proof (cases "\<exists>ix xf attr. objects d i = Some (InstanceObject ix xf attr) \<and> can_delete d i")
  case False
  then have "replace_instance_geometry L i f v d = (Inr (PBool False), d)"
    by (cases "objects d i"; cases "the (objects d i)")
       (auto simp: replace_not_found replace_not_instance replace_delete_failed)
  with assms show ?thesis by simp
next
  case True
  then obtain ix xf attr where o: "objects d i = Some (InstanceObject ix xf attr)" "can_delete d i"
    by auto
  let ?d0 = "d\<lparr>objects := (objects d)(i := None)\<rparr>"
  obtain r1 d1 where e: "ensure_definition L f v ?d0 = (r1, d1)"
    by (cases "ensure_definition L f v ?d0")
  from ensure_definition_frame[OF e]
  have "string_writes d1 = string_writes d \<and> strings d1 = strings d" by auto
  with assms show ?thesis
    unfolding replace_deleted[OF o]
    by (auto simp: bnd_def e AddInstanceObject_def ret_def
        split: sum.splits list.splits if_splits)
qed

lemma remove_instance_cases:
  assumes "remove_instance L data k d = (r, d')"
  shows "(\<exists>e. r = Inl e \<and> d' = d)
       \<or> (\<exists>data'. r = Inr data' \<and> d' = SetString STORE_SECTION STORE_KEY (json_dumps L data') d)"
proof (cases "getitem data ''instances''")
  case (Inl e)
  then have "remove_instance L data k d = (Inl e, d)"
    by (simp add: remove_instance_def)
  with assms have "r = Inl e" "d' = d" by simp_all
  then show ?thesis by simp
next
  case a: (Inr insts)
  show ?thesis
  proof (cases "pop_default insts (format L k)")
    case (Inl e)
    with a have "remove_instance L data k d = (Inl e, d)"
      by (simp add: remove_instance_def)
    with assms have "r = Inl e" "d' = d" by simp_all
    then show ?thesis by simp
  next
    case b: (Inr insts')
    show ?thesis
    proof (cases "setitem data ''instances'' insts'")
      case (Inl e)
      with a b have "remove_instance L data k d = (Inl e, d)"
        by (simp add: remove_instance_def)
      with assms have "r = Inl e" "d' = d" by simp_all
      then show ?thesis by simp
    next
      case (Inr data')
      with a b have "remove_instance L data k d =
          (Inr data', SetString STORE_SECTION STORE_KEY (json_dumps L data') d)"
        by (simp add: remove_instance_def save_def bnd_def ret_def)
      with assms have "r = Inr data'"
        "d' = SetString STORE_SECTION STORE_KEY (json_dumps L data') d" by simp_all
      then show ?thesis by simp
    qed
  qed
qed

lemma add_instance_cases:
  assumes "add_instance L data k fid vals d = (r, d')"
  shows "(\<exists>e. r = Inl e \<and> d' = d)
       \<or> (\<exists>data'. r = Inr data' \<and> d' = SetString STORE_SECTION STORE_KEY (json_dumps L data') d)"
proof (cases "getitem data ''instances''")
  case (Inl e)
  then have "add_instance L data k fid vals d = (Inl e, d)"
    by (simp add: add_instance_def)
  with assms have "r = Inl e" "d' = d" by simp_all
  then show ?thesis by simp
next
  case a: (Inr insts)
  show ?thesis
  proof (cases "setitem insts (format L k) (PDict [(''family_id'', fid), (''values'', vals)])")
    case (Inl e)
    with a have "add_instance L data k fid vals d = (Inl e, d)"
      by (simp add: add_instance_def)
    with assms have "r = Inl e" "d' = d" by simp_all
    then show ?thesis by simp
  next
    case b: (Inr insts')
    show ?thesis
    proof (cases "setitem data ''instances'' insts'")
      case (Inl e)
      with a b have "add_instance L data k fid vals d = (Inl e, d)"
        by (simp add: add_instance_def)
      with assms have "r = Inl e" "d' = d" by simp_all
      then show ?thesis by simp
    next
      case (Inr data')
      with a b have "add_instance L data k fid vals d =
          (Inr data', SetString STORE_SECTION STORE_KEY (json_dumps L data') d)"
        by (simp add: add_instance_def save_def bnd_def ret_def)
      with assms have "r = Inr data'"
        "d' = SetString STORE_SECTION STORE_KEY (json_dumps L data') d" by simp_all
      then show ?thesis by simp
    qed
  qed
qed

lemma SetString_writes:
  "string_writes (SetString s k v d) = string_writes d @ [(s, k, v)]"
  by (simp add: SetString_def)

lemma sync_step_missing:
  "objects d obj_id = None \<Longrightarrow>
   sync_step L family fid (obj_id, info) data d = remove_instance L data (PStr obj_id) d"
  by (simp add: sync_step_def)

lemma sync_step_present:
  assumes "objects d obj_id \<noteq> None" and "getitem info ''values'' = Inr vals"
    and "replace_instance_geometry L obj_id family vals d = (r, d1)"
  shows "sync_step L family fid (obj_id, info) data d =
     (case r of Inl e \<Rightarrow> (Inl e, d1)
      | Inr new_id \<Rightarrow>
          if truthy new_id \<and> new_id \<noteq> PStr obj_id
          then bnd (remove_instance L data (PStr obj_id))
                 (\<lambda>data1. add_instance L data1 new_id (PStr fid) vals) d1
          else (Inr data, d1))"
proof -
  have s: "sync_step L family fid (obj_id, info) data d =
      bnd (replace_instance_geometry L obj_id family vals) (\<lambda>new_id.
        if truthy new_id \<and> new_id \<noteq> PStr obj_id then
          bnd (remove_instance L data (PStr obj_id)) (\<lambda>data1.
          bnd (lift (getitem info ''values'')) (\<lambda>values'.
            add_instance L data1 new_id (PStr fid) values'))
        else ret data) d"
    using assms(1,2) by (auto simp: sync_step_def)
  show ?thesis
  proof (cases r)
    case (Inl e)
    with assms(3) show ?thesis unfolding s by (simp add: bnd_Inl)
  next
    case (Inr new_id)
    with assms(3) have "replace_instance_geometry L obj_id family vals d = (Inr new_id, d1)"
      by simp
    then show ?thesis
      unfolding s using Inr by (simp add: bnd_Inr assms(2) ret_def)
  qed
qed

lemma replace_result:
  assumes "replace_instance_geometry L i f v d = (Inr r, d1)"
  shows "r = PBool False \<or> (\<exists>g gs. r = PStr g \<and> id_supply d = g # gs \<and> g \<noteq> guid_empty)"
proof (cases "\<exists>ix xf attr. objects d i = Some (InstanceObject ix xf attr) \<and> can_delete d i")
  case False
  then have "replace_instance_geometry L i f v d = (Inr (PBool False), d)"
    by (cases "objects d i"; cases "the (objects d i)")
       (auto simp: replace_not_found replace_not_instance replace_delete_failed)
  with assms show ?thesis by simp
next
  case True
  then obtain ix xf attr where o: "objects d i = Some (InstanceObject ix xf attr)" "can_delete d i"
    by auto
  let ?d0 = "d\<lparr>objects := (objects d)(i := None)\<rparr>"
  obtain r1 d0 where e: "ensure_definition L f v ?d0 = (r1, d0)"
    by (cases "ensure_definition L f v ?d0")
  from ensure_definition_frame[OF e]
  have "id_supply d0 = id_supply d" by auto
  with assms show ?thesis
    unfolding replace_deleted[OF o]
    by (auto simp: bnd_def e AddInstanceObject_def ret_def
        split: sum.splits list.splits if_splits)
qed

lemma sync_step_pruned_writes:
  assumes "objects d obj_id = None"
    and "sync_step L family fid (obj_id, info) data d = (Inr data', d')"
  shows "string_writes d' = string_writes d @ [(STORE_SECTION, STORE_KEY, json_dumps L data')]"
proof -
  from assms have "remove_instance L data (PStr obj_id) d = (Inr data', d')"
    by (simp add: sync_step_missing)
  from remove_instance_cases[OF this] show ?thesis
    by (auto simp: SetString_writes)
qed

lemma sync_step_replaced_writes:
  assumes "objects d obj_id \<noteq> None" and "getitem info ''values'' = Inr vals"
    and "replace_instance_geometry L obj_id family vals d = (Inr (PStr g), d1)"
    and "g \<noteq> []" and "g \<noteq> obj_id"
    and "sync_step L family fid (obj_id, info) data d = (Inr data', d')"
  shows "\<exists>data1. string_writes d' = string_writes d
           @ [(STORE_SECTION, STORE_KEY, json_dumps L data1),
              (STORE_SECTION, STORE_KEY, json_dumps L data')]"
proof -
  from replace_frame[OF assms(3)] have fr: "string_writes d1 = string_writes d" by simp
  have run: "bnd (remove_instance L data (PStr obj_id))
          (\<lambda>data1. add_instance L data1 (PStr g) (PStr fid) vals) d1 = (Inr data', d')"
    using assms(4,5,6) unfolding sync_step_present[OF assms(1,2,3)] by simp
  obtain r2 d2 where rm: "remove_instance L data (PStr obj_id) d1 = (r2, d2)"
    by (cases "remove_instance L data (PStr obj_id) d1")
  from run rm obtain data1 where r2: "r2 = Inr data1"
    by (cases r2) (simp_all add: bnd_def)
  from run rm r2
  have ad: "add_instance L data1 (PStr g) (PStr fid) vals d2 = (Inr data', d')"
    by (simp add: bnd_def)
  from remove_instance_cases[OF rm] r2
  have w2: "string_writes d2 = string_writes d1 @ [(STORE_SECTION, STORE_KEY, json_dumps L data1)]"
    by (auto simp: SetString_writes)
  from add_instance_cases[OF ad]
  have w3: "string_writes d' = string_writes d2 @ [(STORE_SECTION, STORE_KEY, json_dumps L data')]"
    by (auto simp: SetString_writes)
  from fr w2 w3 show ?thesis by (intro exI[of _ data1]) simp
qed

lemma sync_step_appends:
  assumes "sync_step L family fid u data d = (r, d')"
  shows "\<exists>ws. string_writes d' = string_writes d @ ws"
proof -
  obtain obj_id info where u: "u = (obj_id, info)" by (cases u)
  show ?thesis
  proof (cases "objects d obj_id = None")
    case True
    with assms u have "remove_instance L data (PStr obj_id) d = (r, d')"
      by (simp add: sync_step_missing)
    from remove_instance_cases[OF this] show ?thesis by (auto simp: SetString_writes)
  next
    case False
    show ?thesis
    proof (cases "getitem info ''values''")
      case (Inl e)
      with assms u False show ?thesis by (simp add: sync_step_def)
    next
      case (Inr vals)
      obtain r1 d1 where rp: "replace_instance_geometry L obj_id family vals d = (r1, d1)"
        by (cases "replace_instance_geometry L obj_id family vals d")
      note st = sync_step_present[OF False Inr rp, where fid = fid and data = data]
      from replace_frame[OF rp] have fr: "string_writes d1 = string_writes d" by simp
      show ?thesis
      proof (cases r1)
        case (Inl e)
        with assms u st fr show ?thesis by auto
      next
        case r1: (Inr new_id)
        show ?thesis
        proof (cases "truthy new_id \<and> new_id \<noteq> PStr obj_id")
          case f: False
          with assms u st r1 fr show ?thesis by auto
        next
          case t: True
          obtain r2 d2 where rm: "remove_instance L data (PStr obj_id) d1 = (r2, d2)"
            by (cases "remove_instance L data (PStr obj_id) d1")
          from remove_instance_cases[OF rm]
          obtain ws2 where w2: "string_writes d2 = string_writes d1 @ ws2"
            by (auto simp: SetString_writes)
          show ?thesis
          proof (cases r2)
            case (Inl e)
            with assms u st r1 t rm fr w2 show ?thesis
              by (auto simp: bnd_def)
          next
            case r2: (Inr data1)
            with assms u st r1 t rm
            have ad: "add_instance L data1 new_id (PStr fid) vals d2 = (r, d')"
              by (simp add: bnd_def)
            from add_instance_cases[OF ad]
            obtain ws3 where "string_writes d' = string_writes d2 @ ws3"
              by (auto simp: SetString_writes)
            with fr w2 show ?thesis by simp
          qed
        qed
      qed
    qed
  qed
qed

lemma sync_loop_appends:
  "sync_loop L family fid us data d = (r, d') \<Longrightarrow> \<exists>ws. string_writes d' = string_writes d @ ws"
proof (induction us arbitrary: data d)
  case Nil
  then show ?case by simp
next
  case (Cons u us)
  obtain r1 d1 where s: "sync_step L family fid u data d = (r1, d1)"
    by (cases "sync_step L family fid u data d")
  from sync_step_appends[OF s] obtain ws1 where w1: "string_writes d1 = string_writes d @ ws1" ..
  show ?case
  proof (cases r1)
    case (Inl e)
    with Cons.prems s w1 show ?thesis by auto
  next
    case (Inr data1)
    with Cons.prems s have "sync_loop L family fid us data1 d1 = (r, d')" by simp
    from Cons.IH[OF this] w1 show ?thesis by auto
  qed
qed

lemma bnd_liftE:
  assumes "bnd (lift m) f d = (Inr x, d')"
  obtains a where "m = Inr a" and "f a d = (Inr x, d')"
  using assms by (cases m) (auto simp: bnd_def lift_def)

lemma bndE:
  assumes "bnd m f d = (Inr x, d')"
  obtains a d1 where "m d = (Inr a, d1)" and "f a d1 = (Inr x, d')"
  using assms by (cases "m d") (auto simp: bnd_def split: sum.splits)

lemma sync_completed:
  assumes "cmd_sync_family_instances L choice w_answer h_answer doc = (Inr (Redraw # ui), doc')"
  shows "\<exists>nm fid family default_w default_h family' data' updates data'' d.
           choice = Some nm \<and> w_answer = Some default_w \<and> h_answer = Some default_h
         \<and> find_family_by_name L (DynamicBlockRegistry_load L doc) nm = Inr (Some (fid, family))
         \<and> set_defaults L (DynamicBlockRegistry_load L doc) fid family default_w default_h
               = Inr (family', data')
         \<and> iter_instances_for_family data' fid = Inr updates
         \<and> sync_loop L family' fid updates data' doc = (Inr data'', d)
         \<and> doc' = SetString STORE_SECTION STORE_KEY (json_dumps L data'') d"
  using assms unfolding cmd_sync_family_instances_def Let_def
  apply (elim bnd_liftE)
  apply (simp split: if_splits add: ret_def)
  apply (elim bnd_liftE)
  apply (simp split: if_splits option.splits prod.splits add: ret_def)
  apply (elim bnd_liftE)
  apply (simp split: if_splits option.splits prod.splits add: ret_def)
  apply (elim bnd_liftE)
  apply (simp split: if_splits option.splits prod.splits add: ret_def)
  apply (elim bnd_liftE)
  apply (simp split: if_splits option.splits prod.splits add: ret_def)
  apply (elim bnd_liftE)
  apply (simp split: if_splits option.splits prod.splits add: ret_def)
  apply (elim bnd_liftE bndE)
  apply (simp add: save_def ret_def)
  done


lemma sync_step_noop:
  assumes "objects d obj_id \<noteq> None" and "getitem info ''values'' = Inr vals"
    and "replace_instance_geometry L obj_id family vals d = (Inr new_id, d1)"
    and "\<not> (truthy new_id \<and> new_id \<noteq> PStr obj_id)"
  shows "sync_step L family fid (obj_id, info) data d = (Inr data, d1)"
    and "string_writes d1 = string_writes d"
proof -
  show "sync_step L family fid (obj_id, info) data d = (Inr data, d1)"
    unfolding sync_step_present[OF assms(1,2,3)] sum.case if_not_P[OF assms(4)] by (rule refl)
  from replace_frame[OF assms(3)] show "string_writes d1 = string_writes d" by simp
qed

lemma sync_step_length:
  assumes "sync_step L family fid (obj_id, info) data d = (Inr data', d')"
  shows "length (string_writes d') = length (string_writes d) + round_writes L family (obj_id, info) d"
proof (cases "objects d obj_id = None")
  case True
  from sync_step_pruned_writes[OF True assms] True show ?thesis
    by (simp add: round_writes_def)
next
  case False
  from assms False obtain vals where v: "getitem info ''values'' = Inr vals"
    by (cases "getitem info ''values''") (auto simp: sync_step_def)
  obtain r d1 where rp: "replace_instance_geometry L obj_id family vals d = (r, d1)"
    by (cases "replace_instance_geometry L obj_id family vals d")
  from assms obtain new_id where r: "r = Inr new_id"
    unfolding sync_step_present[OF False v rp] by (cases r) auto
  note rp' = rp[unfolded r]
  have rw: "round_writes L family (obj_id, info) d
              = (if truthy new_id \<and> new_id \<noteq> PStr obj_id then 2 else 0)"
    by (simp only: round_writes_def prod.case if_not_P[OF False] v sum.case rp' fst_conv)
  show ?thesis
  proof (cases "truthy new_id \<and> new_id \<noteq> PStr obj_id")
    case f: False
    have "sync_step L family fid (obj_id, info) data d = (Inr data, d1)"
      using False v rp' f by (rule sync_step_noop(1))
    with assms have "d' = d1" by simp
    moreover have "string_writes d1 = string_writes d"
      using False v rp' f by (rule sync_step_noop(2))
    ultimately have "length (string_writes d') = length (string_writes d)" by simp
    moreover from f have "round_writes L family (obj_id, info) d = 0"
      unfolding rw by (rule if_not_P)
    ultimately show ?thesis by simp
  next
    case t: True
    from replace_result[OF rp'] have "new_id = PBool False \<or> (\<exists>g. new_id = PStr g)"
      by blast
    with t obtain g where g1: "new_id = PStr g"
      by (cases new_id) simp_all
    with t have g2: "g \<noteq> []" "g \<noteq> obj_id" by simp_all
    note g = g1 g2
    have "replace_instance_geometry L obj_id family vals d = (Inr (PStr g), d1)"
      using rp' g(1) by simp
    from sync_step_replaced_writes[OF False v this g(2,3) assms]
    obtain data0 where "string_writes d' = string_writes d
           @ [(STORE_SECTION, STORE_KEY, json_dumps L data0),
              (STORE_SECTION, STORE_KEY, json_dumps L data')]" ..
    then have "length (string_writes d') = length (string_writes d) + 2" by simp
    moreover from t have "round_writes L family (obj_id, info) d = 2"
      unfolding rw by (rule if_P)
    ultimately show ?thesis by simp
  qed
qed

lemma sync_loop_length:
  "sync_loop L family fid us data d = (Inr data', d') \<Longrightarrow>
   length (string_writes d') = length (string_writes d) + loop_writes L family fid us data d"
proof (induction us arbitrary: data d)
  case Nil
  then show ?case by simp
next
  case (Cons u us)
  obtain obj_id info where u: "u = (obj_id, info)" by (cases u)
  obtain r1 d1 where s: "sync_step L family fid u data d = (r1, d1)"
    by (cases "sync_step L family fid u data d")
  from Cons.prems s obtain data1 where r1: "r1 = Inr data1" by (cases r1) auto
  from Cons.prems s r1 have "sync_loop L family fid us data1 d1 = (Inr data', d')" by simp
  from Cons.IH[OF this] sync_step_length[OF s[unfolded u r1]] s r1 u
  show ?case by simp
qed

text \<open>
  Claim C9, as the code has it. In every run of the synchronisation command that
  completes its batch, the storage slot is written at the end of the batch, after the
  loop over the family's instances, with the registry as the loop left it, and this is
  the last write of the run. It is the only write exactly when no round of the loop
  saves: \<^verbatim>\<open>remove_instance\<close> and \<^verbatim>\<open>add_instance\<close> save on every call, so the loop
  writes the slot \<open>loop_writes\<close> times, a round that prunes an instance once, a round
  that replaces an instance twice, and a round whose replacement fails or returns the
  same id not at all.
\<close>

theorem sync_writes_through:
  assumes "cmd_sync_family_instances L choice w_answer h_answer doc = (Inr (Redraw # ui), doc')"
  shows "(\<exists>nm fid family default_w default_h family' data' updates data'' d.
            choice = Some nm \<and> w_answer = Some default_w \<and> h_answer = Some default_h
          \<and> find_family_by_name L (DynamicBlockRegistry_load L doc) nm = Inr (Some (fid, family))
          \<and> set_defaults L (DynamicBlockRegistry_load L doc) fid family default_w default_h
                = Inr (family', data')
          \<and> iter_instances_for_family data' fid = Inr updates
          \<and> sync_loop L family' fid updates data' doc = (Inr data'', d)
          \<and> doc' = SetString STORE_SECTION STORE_KEY (json_dumps L data'') d
          \<and> string_writes doc'
                = string_writes d @ [(STORE_SECTION, STORE_KEY, json_dumps L data'')]
          \<and> (\<exists>ws. string_writes d = string_writes doc @ ws
                 \<and> length ws = loop_writes L family' fid updates data' doc)
          \<and> (loop_writes L family' fid updates data' doc = 0 \<longrightarrow>
                string_writes doc'
                  = string_writes doc @ [(STORE_SECTION, STORE_KEY, json_dumps L data'')]))
       \<and> (\<forall>family fid obj_id info data d data1 d1.
            objects d obj_id = None \<longrightarrow>
            sync_step L family fid (obj_id, info) data d = (Inr data1, d1) \<longrightarrow>
            string_writes d1 = string_writes d @ [(STORE_SECTION, STORE_KEY, json_dumps L data1)])
       \<and> (\<forall>family fid obj_id info vals g data d data1 d1.
            objects d obj_id \<noteq> None \<longrightarrow> getitem info ''values'' = Inr vals \<longrightarrow>
            fst (replace_instance_geometry L obj_id family vals d) = Inr (PStr g) \<longrightarrow>
            g \<noteq> [] \<longrightarrow> g \<noteq> obj_id \<longrightarrow>
            sync_step L family fid (obj_id, info) data d = (Inr data1, d1) \<longrightarrow>
            (\<exists>data0. string_writes d1 = string_writes d
               @ [(STORE_SECTION, STORE_KEY, json_dumps L data0),
                  (STORE_SECTION, STORE_KEY, json_dumps L data1)]))
       \<and> (\<forall>family fid obj_id info vals new_id data d data1 d1.
            objects d obj_id \<noteq> None \<longrightarrow> getitem info ''values'' = Inr vals \<longrightarrow>
            fst (replace_instance_geometry L obj_id family vals d) = Inr new_id \<longrightarrow>
            \<not> (truthy new_id \<and> new_id \<noteq> PStr obj_id) \<longrightarrow>
            sync_step L family fid (obj_id, info) data d = (Inr data1, d1) \<longrightarrow>
            string_writes d1 = string_writes d \<and> data1 = data)"
proof (intro conjI allI impI)
  from sync_completed[OF assms]
  obtain nm fid family default_w default_h family' data' updates data'' d where
    c: "choice = Some nm" "w_answer = Some default_w" "h_answer = Some default_h"
      "find_family_by_name L (DynamicBlockRegistry_load L doc) nm = Inr (Some (fid, family))"
      "set_defaults L (DynamicBlockRegistry_load L doc) fid family default_w default_h
                = Inr (family', data')"
      "iter_instances_for_family data' fid = Inr updates"
    and l: "sync_loop L family' fid updates data' doc = (Inr data'', d)"
    and d: "doc' = SetString STORE_SECTION STORE_KEY (json_dumps L data'') d"
    by blast
  from sync_loop_appends[OF l] obtain ws where w: "string_writes d = string_writes doc @ ws" ..
  from sync_loop_length[OF l] w
  have n: "length ws = loop_writes L family' fid updates data' doc" by simp
  have f: "string_writes doc' = string_writes d @ [(STORE_SECTION, STORE_KEY, json_dumps L data'')]"
    unfolding d by (rule SetString_writes)
  have z: "loop_writes L family' fid updates data' doc = 0 \<longrightarrow>
                string_writes doc'
                  = string_writes doc @ [(STORE_SECTION, STORE_KEY, json_dumps L data'')]"
    using f w n by auto
  have e: "\<exists>ws. string_writes d = string_writes doc @ ws
                 \<and> length ws = loop_writes L family' fid updates data' doc"
    using w n by blast
  show "\<exists>nm fid family default_w default_h family' data' updates data'' d.
            choice = Some nm \<and> w_answer = Some default_w \<and> h_answer = Some default_h
          \<and> find_family_by_name L (DynamicBlockRegistry_load L doc) nm = Inr (Some (fid, family))
          \<and> set_defaults L (DynamicBlockRegistry_load L doc) fid family default_w default_h
                = Inr (family', data')
          \<and> iter_instances_for_family data' fid = Inr updates
          \<and> sync_loop L family' fid updates data' doc = (Inr data'', d)
          \<and> doc' = SetString STORE_SECTION STORE_KEY (json_dumps L data'') d
          \<and> string_writes doc'
                = string_writes d @ [(STORE_SECTION, STORE_KEY, json_dumps L data'')]
          \<and> (\<exists>ws. string_writes d = string_writes doc @ ws
                 \<and> length ws = loop_writes L family' fid updates data' doc)
          \<and> (loop_writes L family' fid updates data' doc = 0 \<longrightarrow>
                string_writes doc'
                  = string_writes doc @ [(STORE_SECTION, STORE_KEY, json_dumps L data'')])"
    apply (rule exI[of _ nm], rule exI[of _ fid], rule exI[of _ family])
    apply (rule exI[of _ default_w], rule exI[of _ default_h], rule exI[of _ family'])
    apply (rule exI[of _ data'], rule exI[of _ updates], rule exI[of _ data''], rule exI[of _ d])
    apply (intro conjI)
    apply (rule c l d f e z)+
    done
next
  fix family fid obj_id info data d data1 d1
  assume "objects d obj_id = None"
    and "sync_step L family fid (obj_id, info) data d = (Inr data1, d1)"
  then show "string_writes d1 = string_writes d @ [(STORE_SECTION, STORE_KEY, json_dumps L data1)]"
    by (rule sync_step_pruned_writes)
next
  fix family fid obj_id info vals g data d data1 d1
  assume a: "objects d obj_id \<noteq> None" "getitem info ''values'' = Inr vals"
    "fst (replace_instance_geometry L obj_id family vals d) = Inr (PStr g)"
    "g \<noteq> []" "g \<noteq> obj_id"
    "sync_step L family fid (obj_id, info) data d = (Inr data1, d1)"
  obtain d0 where "replace_instance_geometry L obj_id family vals d = (Inr (PStr g), d0)"
    using a(3) by (cases "replace_instance_geometry L obj_id family vals d") auto
  from sync_step_replaced_writes[OF a(1,2) this a(4,5,6)]
  show "\<exists>data0. string_writes d1 = string_writes d
               @ [(STORE_SECTION, STORE_KEY, json_dumps L data0),
                  (STORE_SECTION, STORE_KEY, json_dumps L data1)]" .
next
  fix family fid obj_id info vals new_id data d data1 d1
  assume a: "objects d obj_id \<noteq> None" "getitem info ''values'' = Inr vals"
    "fst (replace_instance_geometry L obj_id family vals d) = Inr new_id"
    "\<not> (truthy new_id \<and> new_id \<noteq> PStr obj_id)"
    "sync_step L family fid (obj_id, info) data d = (Inr data1, d1)"
  obtain d0 where r: "replace_instance_geometry L obj_id family vals d = (Inr new_id, d0)"
    using a(3) by (cases "replace_instance_geometry L obj_id family vals d") auto
  have "sync_step L family fid (obj_id, info) data d = (Inr data, d0)"
    using a(1,2) r a(4) by (rule sync_step_noop(1))
  with a(5) have e: "data1 = data" "d1 = d0" by simp_all
  have "string_writes d0 = string_writes d"
    using a(1,2) r a(4) by (rule sync_step_noop(2))
  with e show "string_writes d1 = string_writes d" by simp
  from e show "data1 = data" by simp
qed

lemma sample_sync_run:
  "cmd_sync_family_instances sample_lib (Some ''Panel'') (Some 1) (Some 2) stale_doc =
     (Inr [Redraw, MessageBox (''Family '' @ quoted ''Panel'' @ '' synchronized.'') ''Dynamic Blocks''],
      stale_doc\<lparr>strings := [(STORE_SECTION, STORE_KEY) \<mapsto> ''pruned registry''],
                string_writes := [(STORE_SECTION, STORE_KEY, ''pruned registry''),
                                  (STORE_SECTION, STORE_KEY, ''pruned registry'')]\<rparr>)"
  by (simp add: cmd_sync_family_instances_def Let_def DynamicBlockRegistry_load_def GetValue_def
      stale_doc_def sample_doc_def blank_doc_def load_try_def sample_lib_def table_lib_def
      sample_registry_def edited_registry_def pruned_registry_def sample_values_def
      edited_values_def panel_def setdefault_def families_of_def sorted_names_def
      find_family_by_name_def lower_samples set_defaults_def iter_instances_for_family_def
      sync_step_def remove_instance_def save_def SetString_def dict_pop_def bnd_def ret_def
      lift_def)

lemma stale_writes: "string_writes stale_doc = []"
  by (simp add: stale_doc_def sample_doc_def blank_doc_def)

theorem sync_writes_through_witness:
  "string_writes (snd (cmd_sync_family_instances sample_lib (Some ''Panel'') (Some 1) (Some 2)
      stale_doc))
   = string_writes stale_doc @ [(STORE_SECTION, STORE_KEY, ''pruned registry''),
                                (STORE_SECTION, STORE_KEY, ''pruned registry'')]"
  using sync_writes_through [OF sample_sync_run]
  by (simp add: sample_sync_run stale_writes)

text \<open>The claim as stated fails: a run that prunes one instance writes the slot twice,
  the first time during the per-instance processing.\<close>

theorem sync_writes_counterexample:
  "string_writes stale_doc = []
   \<and> fst (cmd_sync_family_instances sample_lib (Some ''Panel'') (Some 1) (Some 2) stale_doc)
     = Inr [Redraw, MessageBox (''Family '' @ quoted ''Panel'' @ '' synchronized.'')
              ''Dynamic Blocks'']
   \<and> string_writes (snd (cmd_sync_family_instances sample_lib (Some ''Panel'') (Some 1)
        (Some 2) stale_doc))
     = [(STORE_SECTION, STORE_KEY, ''pruned registry''),
        (STORE_SECTION, STORE_KEY, ''pruned registry'')]"
  by (simp add: sample_sync_run stale_writes)


section \<open>Synchronising a family: pruning a missing instance\<close>

lemma iter_loop_filter:
  "\<forall>(k, info) \<in> set insts. \<exists>f. getitem info ''family_id'' = Inr f \<Longrightarrow>
   iter_instances_loop insts fid = Inr (instances_of fid insts)"
  by (induction insts) (auto simp: instances_of_def)

lemma family_names_wf:
  "\<forall>(k, fam) \<in> set fams. \<exists>n. getitem fam ''name'' = Inr (PStr n) \<Longrightarrow>
   \<exists>ns. family_names fams = Inr ns \<and> list_all (\<lambda>n. string_of n \<noteq> None) ns"
  by (induction fams) auto

lemma set_defaults_dict:
  assumes "map_of kvs ''families'' = Some (PDict fams)"
    and "getitem family ''parameters'' = Inr params"
    and "getitem params ''Width'' = Inr pw"
  shows "\<exists>family' kvs'. set_defaults L (PDict kvs) fid family w h = Inr (family', PDict kvs')
           \<and> getitem family' ''name'' = getitem family ''name''
           \<and> getitem family' ''family_type'' = getitem family ''family_type''
           \<and> map_of kvs' ''instances'' = map_of kvs ''instances''"
proof -
  from assms(2) obtain fkvs where f: "family = PDict fkvs" by (cases family) auto
  from assms(3) obtain pkvs where p: "params = PDict pkvs" by (cases params) auto
  show ?thesis
    using assms unfolding f p
    by (simp add: set_defaults_def map_of_dict_set split: option.splits)
qed

lemma ensure_family_cong:
  assumes "getitem f1 ''name'' = getitem f2 ''name''"
    and "getitem f1 ''family_type'' = getitem f2 ''family_type''"
  shows "ensure_definition L f1 v = ensure_definition L f2 v"
  unfolding ensure_definition_def assms by (rule refl)

lemma replace_family_cong:
  assumes "getitem f1 ''name'' = getitem f2 ''name''"
    and "getitem f1 ''family_type'' = getitem f2 ''family_type''"
  shows "replace_instance_geometry L i f1 v = replace_instance_geometry L i f2 v"
  unfolding replace_instance_geometry_def ensure_family_cong[OF assms] by (rule refl)

lemma dict_pop_commute: "dict_pop (dict_pop kvs a) b = dict_pop (dict_pop kvs b) a"
  by (auto simp: dict_pop_def intro: filter_cong)

lemma dict_set_absent: "k \<notin> fst ` set kvs \<Longrightarrow> dict_set kvs k v = kvs @ [(k, v)]"
  by (induction kvs k v rule: dict_set.induct) auto

lemma dict_pop_keys: "fst ` set (dict_pop kvs k) = fst ` set kvs - {k}"
  by (auto simp: dict_pop_def)

lemma dict_pop_append: "dict_pop (xs @ ys) k = dict_pop xs k @ dict_pop ys k"
  by (simp add: dict_pop_def)

lemma instances_of_pop:
  "instances_of fid (dict_pop kvs k) = filter (\<lambda>kv. fst kv \<noteq> k) (instances_of fid kvs)"
  by (auto simp: instances_of_def dict_pop_def intro: filter_cong)

lemma instances_of_append:
  "instances_of fid (xs @ ys) = instances_of fid xs @ instances_of fid ys"
  by (simp add: instances_of_def)

lemma ensure_SetString:
  "ensure_definition L f v (SetString s k x d) =
     (case ensure_definition L f v d of (r, d') \<Rightarrow> (r, SetString s k x d'))"
proof (cases "getitem f ''name''")
  case (Inl e)
  then show ?thesis by (simp add: ensure_definition_def)
next
  case n: (Inr fname)
  show ?thesis
  proof (cases "definition_name L fname v")
    case (Inl e)
    with n show ?thesis by (simp add: ensure_definition_def)
  next
    case m: (Inr nm)
    have fd: "InstanceDefinitions_Find (SetString s k x d) nm = InstanceDefinitions_Find d nm"
      by (simp add: InstanceDefinitions_Find_def SetString_def)
    show ?thesis
    proof (cases "InstanceDefinitions_Find d nm")
      case (Some i)
      with n m fd show ?thesis by (simp add: ensure_definition_hit)
    next
      case None
      show ?thesis
      proof (cases "getitem f ''family_type''")
        case (Inl e)
        with n m None fd show ?thesis by (simp add: ensure_definition_def)
      next
        case t: (Inr ftype)
        show ?thesis
        proof (cases "build_geometry L ftype v")
          case (Inl e)
          with n m None fd t show ?thesis by (simp add: ensure_definition_def)
        next
          case (Inr g)
          with n m None fd t show ?thesis
            by (simp add: ensure_definition_def InstanceDefinitions_Add_def SetString_def)
        qed
      qed
    qed
  qed
qed

lemma AddInstanceObject_SetString:
  "AddInstanceObject a xf attr (SetString s k x d) =
     (case AddInstanceObject a xf attr d of (r, d') \<Rightarrow> (r, SetString s k x d'))"
  by (simp add: AddInstanceObject_def SetString_def split: list.splits)

lemma replace_SetString:
  "replace_instance_geometry L i f v (SetString s k x d) =
     (case replace_instance_geometry L i f v d of (r, d') \<Rightarrow> (r, SetString s k x d'))"
proof (cases "\<exists>ix xf attr. objects d i = Some (InstanceObject ix xf attr) \<and> can_delete d i")
  case False
  then have "replace_instance_geometry L i f v d = (Inr (PBool False), d)"
    by (cases "objects d i"; cases "the (objects d i)")
       (auto simp: replace_not_found replace_not_instance replace_delete_failed)
  moreover from False
  have "replace_instance_geometry L i f v (SetString s k x d)
          = (Inr (PBool False), SetString s k x d)"
    by (cases "objects d i"; cases "the (objects d i)")
       (auto simp: replace_not_found replace_not_instance replace_delete_failed SetString_def)
  ultimately show ?thesis by simp
next
  case True
  then obtain ix xf attr where o: "objects d i = Some (InstanceObject ix xf attr)" "can_delete d i"
    by auto
  then have o': "objects (SetString s k x d) i = Some (InstanceObject ix xf attr)"
    "can_delete (SetString s k x d) i"
    by (simp_all add: SetString_def)
  let ?d0 = "d\<lparr>objects := (objects d)(i := None)\<rparr>"
  have c: "(SetString s k x d)\<lparr>objects := (objects (SetString s k x d))(i := None)\<rparr>
           = SetString s k x ?d0"
    by (simp add: SetString_def)
  obtain r1 d1 where e: "ensure_definition L f v ?d0 = (r1, d1)"
    by (cases "ensure_definition L f v ?d0")
  then have e': "ensure_definition L f v (SetString s k x ?d0) = (r1, SetString s k x d1)"
    by (simp add: ensure_SetString)
  note rd = replace_deleted[OF o] replace_deleted[OF o'] c
  show ?thesis
  proof (cases r1)
    case (Inl a)
    then show ?thesis by (simp add: rd bnd_def e e')
  next
    case (Inr b)
    obtain r2 d2 where a: "AddInstanceObject b xf attr d1 = (r2, d2)"
      by (cases "AddInstanceObject b xf attr d1")
    then obtain g where "r2 = Inr g"
      by (cases r2) (auto simp: AddInstanceObject_def split: list.splits if_splits)
    with Inr a show ?thesis
      by (simp add: rd bnd_def e e' AddInstanceObject_SetString ret_def)
  qed
qed

lemma replace_returns:
  assumes "getitem family ''name'' = Inr fname"
    and "getitem family ''family_type'' = Inr (PStr ''rectangle'')"
    and "getitem values ''Width'' = Inr w" and "float L w = Inr x"
    and "getitem values ''Height'' = Inr h" and "float L h = Inr y"
  shows "\<exists>rv d1. replace_instance_geometry L i family values d = (Inr rv, d1)"
proof (cases "\<exists>ix xf attr. objects d i = Some (InstanceObject ix xf attr) \<and> can_delete d i")
  case False
  then have "replace_instance_geometry L i family values d = (Inr (PBool False), d)"
    by (cases "objects d i"; cases "the (objects d i)")
       (auto simp: replace_not_found replace_not_instance replace_delete_failed)
  then show ?thesis by simp
next
  case True
  then obtain ix xf attr where o: "objects d i = Some (InstanceObject ix xf attr)" "can_delete d i"
    by auto
  let ?d0 = "d\<lparr>objects := (objects d)(i := None)\<rparr>"
  from ensure_definition_rectangle[OF assms, of ?d0]
  obtain index d1 where e: "ensure_definition L family values ?d0 = (Inr index, d1)" by auto
  show ?thesis
    unfolding replace_deleted[OF o]
    by (simp add: bnd_def e AddInstanceObject_def ret_def split: list.splits)
qed

lemma replace_objects_other:
  assumes "replace_instance_geometry L i f v d = (r, d1)" and "k \<noteq> i"
    and "\<forall>g \<in> set (id_supply d). k \<noteq> g"
  shows "objects d1 k = objects d k"
proof (cases "\<exists>ix xf attr. objects d i = Some (InstanceObject ix xf attr) \<and> can_delete d i")
  case False
  then have "replace_instance_geometry L i f v d = (Inr (PBool False), d)"
    by (cases "objects d i"; cases "the (objects d i)")
       (auto simp: replace_not_found replace_not_instance replace_delete_failed)
  with assms(1) show ?thesis by simp
next
  case True
  then obtain ix xf attr where o: "objects d i = Some (InstanceObject ix xf attr)" "can_delete d i"
    by auto
  let ?d0 = "d\<lparr>objects := (objects d)(i := None)\<rparr>"
  obtain r1 d0 where e: "ensure_definition L f v ?d0 = (r1, d0)"
    by (cases "ensure_definition L f v ?d0")
  from ensure_definition_frame[OF e]
  have "id_supply d0 = id_supply d" "objects d0 = (objects d)(i := None)" by auto
  with assms show ?thesis
    unfolding replace_deleted[OF o]
    by (auto simp: bnd_def e AddInstanceObject_def ret_def
        split: sum.splits list.splits if_splits)
qed

lemma SetString_fields [simp]:
  "objects (SetString s k x d) = objects d" "idefs (SetString s k x d) = idefs d"
  "id_supply (SetString s k x d) = id_supply d" "can_delete (SetString s k x d) = can_delete d"
  by (simp_all add: SetString_def)

lemma sync_reaches_loop:
  assumes load: "DynamicBlockRegistry_load L doc = PDict kvs"
    and fams: "map_of kvs ''families'' = Some (PDict fams)"
    and insts: "map_of kvs ''instances'' = Some (PDict insts)"
    and wf_fams: "\<forall>(k, fam) \<in> set fams. \<exists>n. getitem fam ''name'' = Inr (PStr n)"
    and wf_insts: "\<forall>(k, info) \<in> set insts. \<exists>f. getitem info ''family_id'' = Inr f"
    and pick: "nm \<noteq> []" "find_family_by_name L (PDict kvs) nm = Inr (Some (fid, family))"
    and fam: "getitem family ''name'' = Inr fname" "getitem family ''parameters'' = Inr params"
      "getitem params ''Width'' = Inr pw" "float L pw = Inr x"
      "getitem params ''Height'' = Inr ph" "float L ph = Inr y"
  shows "\<exists>family' kvs'.
      set_defaults L (PDict kvs) fid family w h = Inr (family', PDict kvs')
    \<and> getitem family' ''name'' = getitem family ''name''
    \<and> getitem family' ''family_type'' = getitem family ''family_type''
    \<and> map_of kvs' ''instances'' = Some (PDict insts)
    \<and> cmd_sync_family_instances L (Some nm) (Some w) (Some h) doc =
        bnd (sync_loop L family' fid (instances_of fid insts) (PDict kvs')) (\<lambda>data''.
        bnd (save L data'') (\<lambda>_.
          ret [Redraw,
               MessageBox (''Family '' @ quoted nm @ '' synchronized.'') ''Dynamic Blocks'']))
        doc"
proof -
  from set_defaults_dict[OF fams fam(2,3), of L fid w h]
  obtain family' kvs' where sd: "set_defaults L (PDict kvs) fid family w h = Inr (family', PDict kvs')"
    and n: "getitem family' ''name'' = getitem family ''name''"
    and t: "getitem family' ''family_type'' = getitem family ''family_type''"
    and i: "map_of kvs' ''instances'' = map_of kvs ''instances''" by blast
  have fo: "families_of (PDict kvs) = Inr (PDict fams)"
    using fams by (simp add: families_of_def)
  have "find_family_loop L fams nm = Inr (Some (fid, family))"
    using pick(2) fams by (simp add: find_family_by_name_def)
  then have ne: "fams \<noteq> []" by (cases fams) auto
  from family_names_wf[OF wf_fams] obtain ns where
    ns: "family_names fams = Inr ns" "list_all (\<lambda>n. string_of n \<noteq> None) ns" by blast
  then obtain names where sn: "sorted_names ns = Inr names" by (simp add: sorted_names_def)
  have tf: "truthy family" using fam(1) by (rule getitem_truthy)
  have it: "iter_instances_for_family (PDict kvs') fid = Inr (instances_of fid insts)"
    using i insts iter_loop_filter[OF wf_insts, of fid]
    by (simp add: iter_instances_for_family_def)
  have "cmd_sync_family_instances L (Some nm) (Some w) (Some h) doc =
        bnd (sync_loop L family' fid (instances_of fid insts) (PDict kvs')) (\<lambda>data''.
        bnd (save L data'') (\<lambda>_.
          ret [Redraw,
               MessageBox (''Family '' @ quoted nm @ '' synchronized.'') ''Dynamic Blocks'']))
        doc"
    using pick(1) ne
    by (simp add: cmd_sync_family_instances_def Let_def load fo ns sn pick(2) tf fam sd it)
  with sd n t i insts show ?thesis by simp
qed

lemma dict_pop_dict_set:
  "g \<noteq> m \<Longrightarrow> dict_pop (dict_set kvs g e) m = dict_set (dict_pop kvs m) g e"
  by (induction kvs g e rule: dict_set.induct) (auto simp: dict_pop_def)

lemma sync_loop_missing_first:
  assumes kv: "map_of kvs' ''instances'' = Some (PDict insts)"
    and m: "objects doc m = None" and s: "objects doc s \<noteq> None"
    and v: "getitem info_s ''values'' = Inr vs"
    and r: "replace_instance_geometry L s family' vs doc = (Inr rv, d1)"
    and g: "rv = PBool False \<or> (\<exists>g. rv = PStr g \<and> g \<noteq> [] \<and> g \<noteq> s)"
  shows "\<exists>d'. sync_loop L family' fid [(m, info_m), (s, info_s)] (PDict kvs') doc =
           (Inr (PDict (dict_set kvs' ''instances''
                   (PDict (synced_instances fid m s vs rv insts)))), d')
         \<and> objects d' = objects d1 \<and> idefs d' = idefs d1"
proof -
  let ?D1 = "PDict (dict_set kvs' ''instances'' (PDict (dict_pop insts m)))"
  let ?doc1 = "SetString STORE_SECTION STORE_KEY (json_dumps L ?D1) doc"
  have st1: "sync_step L family' fid (m, info_m) (PDict kvs') doc = (Inr ?D1, ?doc1)"
    using m by (simp add: sync_step_missing remove_instance_dict[OF kv])
  have kv1: "map_of (dict_set kvs' ''instances'' (PDict (dict_pop insts m))) ''instances''
               = Some (PDict (dict_pop insts m))"
    by (simp add: map_of_dict_set)
  have s1: "objects ?doc1 s \<noteq> None" using s by simp
  let ?d1 = "SetString STORE_SECTION STORE_KEY (json_dumps L ?D1) d1"
  have r1: "replace_instance_geometry L s family' vs ?doc1 = (Inr rv, ?d1)"
    by (simp add: replace_SetString r)
  note st2 = sync_step_present[OF s1 v r1, where fid = fid and data = ?D1]
  from g show ?thesis
  proof
    assume f: "rv = PBool False"
    then have "sync_step L family' fid (s, info_s) ?D1 ?doc1 = (Inr ?D1, ?d1)"
      using st2 by simp
    with st1 f show ?thesis by (simp add: synced_instances_def)
  next
    assume "\<exists>g. rv = PStr g \<and> g \<noteq> [] \<and> g \<noteq> s"
    then obtain g where g: "rv = PStr g" "g \<noteq> []" "g \<noteq> s" by blast
    let ?e = "PDict [(''family_id'', PStr fid), (''values'', vs)]"
    let ?D2 = "PDict (dict_set kvs' ''instances'' (PDict (dict_pop (dict_pop insts m) s)))"
    let ?D3 = "PDict (dict_set kvs' ''instances''
                 (PDict (dict_set (dict_pop (dict_pop insts m) s) g ?e)))"
    let ?d2 = "SetString STORE_SECTION STORE_KEY (json_dumps L ?D2) ?d1"
    let ?d3 = "SetString STORE_SECTION STORE_KEY (json_dumps L ?D3) ?d2"
    have rm: "remove_instance L ?D1 (PStr s) ?d1 = (Inr ?D2, ?d2)"
      using remove_instance_dict[OF kv1, of L s ?d1] by (simp add: dict_set_twice)
    have kv2: "map_of (dict_set kvs' ''instances'' (PDict (dict_pop (dict_pop insts m) s)))
                 ''instances'' = Some (PDict (dict_pop (dict_pop insts m) s))"
      by (simp add: map_of_dict_set)
    have ad: "add_instance L ?D2 (PStr g) (PStr fid) vs ?d2 = (Inr ?D3, ?d3)"
      using add_instance_dict[OF kv2, of L g "PStr fid" vs ?d2] by (simp add: dict_set_twice)
    have "sync_step L family' fid (s, info_s) ?D1 ?doc1 = (Inr ?D3, ?d3)"
      using st2 g by (simp add: bnd_def rm ad)
    with st1 g show ?thesis by (simp add: synced_instances_def)
  qed
qed

lemma sync_loop_missing_last:
  assumes kv: "map_of kvs' ''instances'' = Some (PDict insts)"
    and s: "objects doc s \<noteq> None" and ms: "m \<noteq> s"
    and v: "getitem info_s ''values'' = Inr vs"
    and r: "replace_instance_geometry L s family' vs doc = (Inr rv, d1)"
    and mo: "objects d1 m = None"
    and g: "rv = PBool False \<or> (\<exists>g. rv = PStr g \<and> g \<noteq> [] \<and> g \<noteq> s \<and> g \<noteq> m)"
  shows "\<exists>d'. sync_loop L family' fid [(s, info_s), (m, info_m)] (PDict kvs') doc =
           (Inr (PDict (dict_set kvs' ''instances''
                   (PDict (synced_instances fid m s vs rv insts)))), d')
         \<and> objects d' = objects d1 \<and> idefs d' = idefs d1"
proof -
  note st1 = sync_step_present[OF s v r, where fid = fid and data = "PDict kvs'"]
  from g show ?thesis
  proof
    assume f: "rv = PBool False"
    then have a: "sync_step L family' fid (s, info_s) (PDict kvs') doc = (Inr (PDict kvs'), d1)"
      using st1 by simp
    have "sync_step L family' fid (m, info_m) (PDict kvs') d1 =
            (Inr (PDict (dict_set kvs' ''instances'' (PDict (dict_pop insts m)))),
             SetString STORE_SECTION STORE_KEY
               (json_dumps L (PDict (dict_set kvs' ''instances'' (PDict (dict_pop insts m))))) d1)"
      using mo by (simp add: sync_step_missing remove_instance_dict[OF kv])
    with a f show ?thesis by (simp add: synced_instances_def)
  next
    assume "\<exists>g. rv = PStr g \<and> g \<noteq> [] \<and> g \<noteq> s \<and> g \<noteq> m"
    then obtain g where g: "rv = PStr g" "g \<noteq> []" "g \<noteq> s" "g \<noteq> m" by blast
    let ?e = "PDict [(''family_id'', PStr fid), (''values'', vs)]"
    let ?D1 = "PDict (dict_set kvs' ''instances'' (PDict (dict_pop insts s)))"
    let ?D2 = "PDict (dict_set kvs' ''instances'' (PDict (dict_set (dict_pop insts s) g ?e)))"
    let ?D3 = "PDict (dict_set kvs' ''instances''
                 (PDict (dict_set (dict_pop (dict_pop insts m) s) g ?e)))"
    let ?d2 = "SetString STORE_SECTION STORE_KEY (json_dumps L ?D1) d1"
    let ?d3 = "SetString STORE_SECTION STORE_KEY (json_dumps L ?D2) ?d2"
    let ?d4 = "SetString STORE_SECTION STORE_KEY (json_dumps L ?D3) ?d3"
    have rm: "remove_instance L (PDict kvs') (PStr s) d1 = (Inr ?D1, ?d2)"
      by (rule remove_instance_dict[OF kv])
    have kv1: "map_of (dict_set kvs' ''instances'' (PDict (dict_pop insts s))) ''instances''
                 = Some (PDict (dict_pop insts s))"
      by (simp add: map_of_dict_set)
    have ad: "add_instance L ?D1 (PStr g) (PStr fid) vs ?d2 = (Inr ?D2, ?d3)"
      using add_instance_dict[OF kv1, of L g "PStr fid" vs ?d2] by (simp add: dict_set_twice)
    have a: "sync_step L family' fid (s, info_s) (PDict kvs') doc = (Inr ?D2, ?d3)"
      using st1 g by (simp add: bnd_def rm ad)
    have kv2: "map_of (dict_set kvs' ''instances'' (PDict (dict_set (dict_pop insts s) g ?e)))
                 ''instances'' = Some (PDict (dict_set (dict_pop insts s) g ?e))"
      by (simp add: map_of_dict_set)
    have eq: "dict_pop (dict_set (dict_pop insts s) g ?e) m
                = dict_set (dict_pop (dict_pop insts m) s) g ?e"
      using g(4) by (simp add: dict_pop_dict_set dict_pop_commute[of insts s m])
    have "sync_step L family' fid (m, info_m) ?D2 ?d3 = (Inr ?D3, ?d4)"
      using mo remove_instance_dict[OF kv2, of L m ?d3]
      by (simp add: sync_step_missing dict_set_twice eq)
    with a g show ?thesis by (simp add: synced_instances_def)
  qed
qed

lemma synced_instances_one:
  assumes two: "instances_of fid insts = [(m, info_m), (s, info_s)]
              \<or> instances_of fid insts = [(s, info_s), (m, info_m)]"
    and ms: "m \<noteq> s"
    and v: "getitem info_s ''values'' = Inr vs"
    and g: "rv = PBool False \<or> (\<exists>g. rv = PStr g \<and> g \<noteq> m \<and> g \<notin> fst ` set insts)"
  shows "map_of (synced_instances fid m s vs rv insts) m = None"
    and "\<exists>k e. instances_of fid (synced_instances fid m s vs rv insts) = [(k, e)]
               \<and> getitem e ''values'' = Inr vs \<and> getitem e ''family_id'' = Inr (PStr fid)"
proof -
  from two have "(s, info_s) \<in> set (instances_of fid insts)" by auto
  then have fs: "getitem info_s ''family_id'' = Inr (PStr fid)"
    by (simp add: instances_of_def)
  from two ms have one: "filter (\<lambda>kv. fst kv \<noteq> m) (instances_of fid insts) = [(s, info_s)]"
    by auto
  from two ms
  have none: "filter (\<lambda>kv. fst kv \<noteq> s) (filter (\<lambda>kv. fst kv \<noteq> m) (instances_of fid insts)) = []"
    by auto
  from two ms
  have none': "filter (\<lambda>x. fst x \<noteq> m \<and> fst x \<noteq> s) (instances_of fid insts) = []"
    by auto
  let ?e = "PDict [(''family_id'', PStr fid), (''values'', vs)]"
  from g show "map_of (synced_instances fid m s vs rv insts) m = None"
    by (auto simp: synced_instances_def map_of_dict_pop map_of_dict_set)
  from g show "\<exists>k e. instances_of fid (synced_instances fid m s vs rv insts) = [(k, e)]
               \<and> getitem e ''values'' = Inr vs \<and> getitem e ''family_id'' = Inr (PStr fid)"
  proof
    assume "rv = PBool False"
    then have "instances_of fid (synced_instances fid m s vs rv insts) = [(s, info_s)]"
      by (simp add: synced_instances_def instances_of_pop one)
    with v fs show ?thesis by simp
  next
    assume "\<exists>g. rv = PStr g \<and> g \<noteq> m \<and> g \<notin> fst ` set insts"
    then obtain g where g: "rv = PStr g" "g \<noteq> m" "g \<notin> fst ` set insts" by blast
    have "g \<notin> fst ` set (dict_pop (dict_pop insts m) s)"
      using g(3) by (simp add: dict_pop_keys)
    then have "synced_instances fid m s vs rv insts = dict_pop (dict_pop insts m) s @ [(g, ?e)]"
      using g(1) by (simp add: synced_instances_def dict_set_absent)
    moreover have "instances_of fid (dict_pop (dict_pop insts m) s) = []"
      by (simp add: instances_of_pop none none')
    moreover have "instances_of fid [(g, ?e)] = [(g, ?e)]"
      by (simp add: instances_of_def)
    ultimately have "instances_of fid (synced_instances fid m s vs rv insts) = [(g, ?e)]"
      by (simp add: instances_of_append)
    then show ?thesis by simp
  qed
qed

lemma twin_load: "DynamicBlockRegistry_load sample_lib twin_doc = twin_registry"
  by (simp add: DynamicBlockRegistry_load_def GetValue_def twin_doc_def sample_doc_def
      blank_doc_def load_try_def sample_lib_def table_lib_def twin_registry_def setdefault_def)

lemma disc_load: "DynamicBlockRegistry_load sample_lib disc_doc = disc_registry"
  by (simp add: DynamicBlockRegistry_load_def GetValue_def disc_doc_def sample_doc_def
      blank_doc_def load_try_def sample_lib_def table_lib_def disc_registry_def setdefault_def)

lemma sample_floats:
  "float sample_lib (PFloat 1) = Inr 1" "float sample_lib (PFloat 2) = Inr 2"
  "round6 sample_lib 1 = 1" "round6 sample_lib 2 = 2"
  by (simp_all add: sample_lib_def table_lib_def)

text \<open>
  Claim C8, as the code has it. The registry is a dict whose families have string names
  and whose instance entries have a family id; the picked name resolves to the family
  \<open>fid\<close>, of type rectangle, whose default Width and Height \<^verbatim>\<open>float\<close> accepts. The family has
  two registered instances \<open>m\<close> and \<open>s\<close>, in either order; the placed object of \<open>m\<close> is no
  longer in the document, that of \<open>s\<close> is, and \<^verbatim>\<open>float\<close> accepts the Width and Height of the
  values \<open>vs\<close> of \<open>s\<close>. The identities the host would issue are non-empty, not in use in
  the document, and not keys of the instances mapping. Then, with all prompts answered,
  the command does not raise and ends with the redraw and the message; the objects and
  the definitions of the document are those that the replacement of \<open>s\<close> with its own
  values \<open>vs\<close> leaves, so nothing is done to geometry for \<open>m\<close>, which stays absent; the
  saved registry has no entry for \<open>m\<close> and exactly one entry for the family, which has
  the values \<open>vs\<close>, not the new defaults \<open>w\<close> and \<open>h\<close>.
\<close>

theorem sync_prunes_missing_instance:
  assumes load: "DynamicBlockRegistry_load L doc = PDict kvs"
    and fams: "map_of kvs ''families'' = Some (PDict fams)"
    and insts: "map_of kvs ''instances'' = Some (PDict insts)"
    and wf_fams: "\<forall>(k, fam) \<in> set fams. \<exists>n. getitem fam ''name'' = Inr (PStr n)"
    and wf_insts: "\<forall>(k, info) \<in> set insts. \<exists>f. getitem info ''family_id'' = Inr f"
    and pick: "nm \<noteq> []" "find_family_by_name L (PDict kvs) nm = Inr (Some (fid, family))"
    and fam: "getitem family ''name'' = Inr fname"
      "getitem family ''family_type'' = Inr (PStr ''rectangle'')"
      "getitem family ''parameters'' = Inr params"
      "getitem params ''Width'' = Inr pw" "float L pw = Inr x"
      "getitem params ''Height'' = Inr ph" "float L ph = Inr y"
    and two: "instances_of fid insts = [(m, info_m), (s, info_s)]
            \<or> instances_of fid insts = [(s, info_s), (m, info_m)]"
    and ms: "m \<noteq> s"
    and missing: "objects doc m = None" and present: "objects doc s \<noteq> None"
    and vals: "getitem info_s ''values'' = Inr vs"
      "getitem vs ''Width'' = Inr vw" "float L vw = Inr xw"
      "getitem vs ''Height'' = Inr vh" "float L vh = Inr xh"
    and fresh: "\<forall>g \<in> set (id_supply doc). g \<noteq> [] \<and> objects doc g = None \<and> g \<notin> fst ` set insts"
  shows "fst (cmd_sync_family_instances L (Some nm) (Some w) (Some h) doc)
           = Inr [Redraw, MessageBox (''Family '' @ quoted nm @ '' synchronized.'')
                    ''Dynamic Blocks'']
    \<and> objects (snd (cmd_sync_family_instances L (Some nm) (Some w) (Some h) doc))
        = objects (snd (replace_instance_geometry L s family vs doc))
    \<and> idefs (snd (cmd_sync_family_instances L (Some nm) (Some w) (Some h) doc))
        = idefs (snd (replace_instance_geometry L s family vs doc))
    \<and> objects (snd (cmd_sync_family_instances L (Some nm) (Some w) (Some h) doc)) m = None
    \<and> (\<exists>family' kvs' new_id.
          set_defaults L (PDict kvs) fid family w h = Inr (family', PDict kvs')
        \<and> fst (replace_instance_geometry L s family vs doc) = Inr new_id
        \<and> GetValue (snd (cmd_sync_family_instances L (Some nm) (Some w) (Some h) doc))
              STORE_SECTION STORE_KEY
            = Some (json_dumps L (PDict (dict_set kvs' ''instances''
                      (PDict (synced_instances fid m s vs new_id insts)))))
        \<and> map_of (synced_instances fid m s vs new_id insts) m = None
        \<and> (\<exists>k e. instances_of fid (synced_instances fid m s vs new_id insts) = [(k, e)]
               \<and> getitem e ''values'' = Inr vs
               \<and> getitem e ''family_id'' = Inr (PStr fid)))"
proof -
  let ?run = "cmd_sync_family_instances L (Some nm) (Some w) (Some h) doc"
  let ?ui = "[Redraw, MessageBox (''Family '' @ quoted nm @ '' synchronized.'') ''Dynamic Blocks'']"
  from sync_reaches_loop[OF load fams insts wf_fams wf_insts pick fam(1,3-7), of w h]
  obtain family' kvs' where
    sd: "set_defaults L (PDict kvs) fid family w h = Inr (family', PDict kvs')"
    and n: "getitem family' ''name'' = getitem family ''name''"
    and t: "getitem family' ''family_type'' = getitem family ''family_type''"
    and kv: "map_of kvs' ''instances'' = Some (PDict insts)"
    and run: "?run = bnd (sync_loop L family' fid (instances_of fid insts) (PDict kvs'))
        (\<lambda>data''. bnd (save L data'') (\<lambda>_. ret ?ui)) doc"
    by blast
  have cong: "replace_instance_geometry L s family' vs = replace_instance_geometry L s family vs"
    using n t by (rule replace_family_cong)
  from replace_returns[OF fam(1,2) vals(2-5), of s doc]
  obtain rv d1 where r: "replace_instance_geometry L s family vs doc = (Inr rv, d1)" by blast
  then have r': "replace_instance_geometry L s family' vs doc = (Inr rv, d1)"
    by (simp add: cong)
  from two have "(m, info_m) \<in> set (instances_of fid insts)" by auto
  then have mk: "m \<in> fst ` set insts"
    by (auto simp: instances_of_def intro: rev_image_eqI)
  have gm: "\<forall>g \<in> set (id_supply doc). m \<noteq> g" using fresh mk by auto
  from ms have sm: "m \<noteq> s" .
  have mo: "objects d1 m = None"
    using replace_objects_other[OF r sm gm] missing by simp
  from replace_result[OF r]
  have g: "rv = PBool False
         \<or> (\<exists>g. rv = PStr g \<and> g \<noteq> [] \<and> g \<noteq> s \<and> g \<noteq> m \<and> g \<notin> fst ` set insts)"
  proof
    assume "rv = PBool False"
    then show ?thesis by simp
  next
    assume "\<exists>g gs. rv = PStr g \<and> id_supply doc = g # gs \<and> g \<noteq> guid_empty"
    then obtain g gs where a: "rv = PStr g" "id_supply doc = g # gs" by blast
    then have "g \<in> set (id_supply doc)" by simp
    with fresh have b: "g \<noteq> []" "objects doc g = None" "g \<notin> fst ` set insts" by auto
    from b(2) present have "g \<noteq> s" by auto
    moreover from b(3) mk have "g \<noteq> m" by auto
    ultimately show ?thesis using a(1) b(1,3) by simp
  qed
  then have g1: "rv = PBool False \<or> (\<exists>g. rv = PStr g \<and> g \<noteq> [] \<and> g \<noteq> s)"
    and g2: "rv = PBool False \<or> (\<exists>g. rv = PStr g \<and> g \<noteq> [] \<and> g \<noteq> s \<and> g \<noteq> m)"
    and g3: "rv = PBool False \<or> (\<exists>g. rv = PStr g \<and> g \<noteq> m \<and> g \<notin> fst ` set insts)"
    by blast+
  let ?fin = "PDict (dict_set kvs' ''instances'' (PDict (synced_instances fid m s vs rv insts)))"
  have "\<exists>d'. sync_loop L family' fid (instances_of fid insts) (PDict kvs') doc = (Inr ?fin, d')
          \<and> objects d' = objects d1 \<and> idefs d' = idefs d1"
    using two
  proof
    assume "instances_of fid insts = [(m, info_m), (s, info_s)]"
    with sync_loop_missing_first[OF kv missing present vals(1) r' g1, of fid info_m]
    show ?thesis by simp
  next
    assume "instances_of fid insts = [(s, info_s), (m, info_m)]"
    with sync_loop_missing_last[OF kv present sm vals(1) r' mo g2, of fid info_m]
    show ?thesis by simp
  qed
  then obtain d' where l: "sync_loop L family' fid (instances_of fid insts) (PDict kvs') doc
        = (Inr ?fin, d')"
    and o: "objects d' = objects d1" and i: "idefs d' = idefs d1" by blast
  have res: "?run = (Inr ?ui, SetString STORE_SECTION STORE_KEY (json_dumps L ?fin) d')"
    unfolding run by (simp add: bnd_def l save_def ret_def)
  have p1: "fst ?run = Inr ?ui" by (simp add: res)
  have p2: "objects (snd ?run) = objects (snd (replace_instance_geometry L s family vs doc))"
    by (simp add: res r o)
  have p3: "idefs (snd ?run) = idefs (snd (replace_instance_geometry L s family vs doc))"
    by (simp add: res r i)
  have p4: "objects (snd ?run) m = None" by (simp add: res o mo)
  have p5: "GetValue (snd ?run) STORE_SECTION STORE_KEY = Some (json_dumps L ?fin)"
    by (simp add: res GetValue_def SetString_def)
  have p6: "fst (replace_instance_geometry L s family vs doc) = Inr rv" by (simp add: r)
  note p7 = synced_instances_one[OF two ms vals(1) g3]
  have p8: "\<exists>family' kvs' new_id.
          set_defaults L (PDict kvs) fid family w h = Inr (family', PDict kvs')
        \<and> fst (replace_instance_geometry L s family vs doc) = Inr new_id
        \<and> GetValue (snd ?run) STORE_SECTION STORE_KEY
            = Some (json_dumps L (PDict (dict_set kvs' ''instances''
                      (PDict (synced_instances fid m s vs new_id insts)))))
        \<and> map_of (synced_instances fid m s vs new_id insts) m = None
        \<and> (\<exists>k e. instances_of fid (synced_instances fid m s vs new_id insts) = [(k, e)]
               \<and> getitem e ''values'' = Inr vs
               \<and> getitem e ''family_id'' = Inr (PStr fid))"
    by (intro exI[of _ family'] exI[of _ kvs'] exI[of _ rv] conjI) (rule sd p6 p5 p7)+
  from p1 p2 p3 p4 p8 show ?thesis by (intro conjI)
qed

theorem sync_prunes_missing_instance_witness:
  "fst (cmd_sync_family_instances sample_lib (Some ''Panel'') (Some 1) (Some 2) twin_doc)
     = Inr [Redraw, MessageBox (''Family '' @ quoted ''Panel'' @ '' synchronized.'')
              ''Dynamic Blocks'']
   \<and> objects (snd (cmd_sync_family_instances sample_lib (Some ''Panel'') (Some 1) (Some 2)
        twin_doc)) ''a2'' = None
   \<and> objects (snd (cmd_sync_family_instances sample_lib (Some ''Panel'') (Some 1) (Some 2)
        twin_doc)) ''b2''
       = Some (InstanceObject 0 [1, 0, 0, 5, 0, 1, 0, 0, 0, 0, 1, 0, 0, 0, 0, 1] [])
   \<and> GetValue (snd (cmd_sync_family_instances sample_lib (Some ''Panel'') (Some 1) (Some 2)
        twin_doc)) STORE_SECTION STORE_KEY = Some ''synced registry''"
proof -
  let ?a1 = "PDict [(''family_id'', PStr ''f1''), (''values'', sample_values)]"
  let ?insts = "[(''a1'', ?a1), (''a2'', ?a1)]"
  let ?kvs = "[(''families'', PDict [(''f1'', panel)]), (''instances'', PDict ?insts)]"
  have load: "DynamicBlockRegistry_load sample_lib twin_doc = PDict ?kvs"
    by (simp add: twin_load twin_registry_def)
  have fams: "map_of ?kvs ''families'' = Some (PDict [(''f1'', panel)])"
    and insts: "map_of ?kvs ''instances'' = Some (PDict ?insts)"
    by simp_all
  have wf_fams: "\<forall>(k, fam) \<in> set [(''f1'', panel)]. \<exists>n. getitem fam ''name'' = Inr (PStr n)"
    by (simp add: panel_def)
  have wf_insts: "\<forall>(k, info) \<in> set ?insts. \<exists>f. getitem info ''family_id'' = Inr f"
    by simp
  have pick: "''Panel'' \<noteq> []"
    "find_family_by_name sample_lib (PDict ?kvs) ''Panel'' = Inr (Some (''f1'', panel))"
    by (simp_all add: find_family_by_name_def panel_def sample_lower)
  have fam: "getitem panel ''name'' = Inr (PStr ''Panel'')"
    "getitem panel ''family_type'' = Inr (PStr ''rectangle'')"
    "getitem panel ''parameters'' = Inr (PDict [(''Width'', PFloat 1), (''Height'', PFloat 2)])"
    "getitem (PDict [(''Width'', PFloat 1), (''Height'', PFloat 2)]) ''Width'' = Inr (PFloat 1)"
    "float sample_lib (PFloat 1) = Inr 1"
    "getitem (PDict [(''Width'', PFloat 1), (''Height'', PFloat 2)]) ''Height'' = Inr (PFloat 2)"
    "float sample_lib (PFloat 2) = Inr 2"
    by (simp_all add: panel_def)
  have two: "instances_of ''f1'' ?insts = [(''a2'', ?a1), (''a1'', ?a1)]
           \<or> instances_of ''f1'' ?insts = [(''a1'', ?a1), (''a2'', ?a1)]"
    by (simp add: instances_of_def)
  have ms: "''a2'' \<noteq> ''a1''" by simp
  have o: "objects twin_doc ''a1''
       = Some (InstanceObject 0 [1, 0, 0, 5, 0, 1, 0, 0, 0, 0, 1, 0, 0, 0, 0, 1] [])"
    "can_delete twin_doc ''a1''" "id_supply twin_doc = [''b2'']"
    "idefs (twin_doc\<lparr>objects := (objects twin_doc)(''a1'' := None)\<rparr>) = []"
    by (simp_all add: twin_doc_def sample_doc_def blank_doc_def)
  have missing: "objects twin_doc ''a2'' = None"
    and present: "objects twin_doc ''a1'' \<noteq> None"
    by (simp_all add: twin_doc_def sample_doc_def blank_doc_def)
  have vals: "getitem ?a1 ''values'' = Inr sample_values"
    "getitem sample_values ''Width'' = Inr (PFloat 1)" "float sample_lib (PFloat 1) = Inr 1"
    "getitem sample_values ''Height'' = Inr (PFloat 2)" "float sample_lib (PFloat 2) = Inr 2"
    by (simp_all add: sample_values_def)
  have fresh: "\<forall>g \<in> set (id_supply twin_doc).
      g \<noteq> [] \<and> objects twin_doc g = None \<and> g \<notin> fst ` set ?insts"
    by (simp add: twin_doc_def sample_doc_def blank_doc_def)
  have r: "replace_instance_geometry sample_lib ''a1'' panel sample_values twin_doc
      = (Inr (PStr ''b2''),
         twin_doc\<lparr>objects := (objects twin_doc)(''a1'' := None),
                   idefs := [Some \<lparr>idef_name = ''DB_Panel_Height=2.0_Width=1.0'',
                       idef_description = ''Dynamic block variant'', idef_base_point = (0, 0, 0),
                       idef_geometry = make_rectangle_geometry 1 2,
                       idef_attributes = [CreateDefaultAttributes]\<rparr>],
                   objects := (objects twin_doc)(''a1'' := None, ''b2'' \<mapsto>
                        InstanceObject 0 [1, 0, 0, 5, 0, 1, 0, 0, 0, 0, 1, 0, 0, 0, 0, 1] []),
                   id_supply := []\<rparr>)"
    by (rule replace_success[OF o(1,2) sample_ensure[OF o(4)] o(3)]) (simp add: guid_empty_def)
  have sd: "set_defaults sample_lib (PDict ?kvs) ''f1'' panel 1 2 = Inr (panel, PDict ?kvs)"
    by (simp add: set_defaults_def panel_def sample_floats)
  have d: "json_dumps sample_lib
      (PDict [(''families'', PDict [(''f1'', panel)]),
              (''instances'', PDict [(''b2'', ?a1)])]) = ''synced registry''"
    by (simp add: sample_lib_def table_lib_def sample_registry_def edited_registry_def
        pruned_registry_def unkeyed_registry_def duplicated_registry_def twin_registry_def
        synced_registry_def disc_registry_def disc_def panel_def
        sample_values_def edited_values_def)
  from sync_prunes_missing_instance [OF load fams insts wf_fams wf_insts pick fam two ms
      missing present vals fresh, of 1 2]
  show ?thesis
    by (simp add: r sd synced_instances_def dict_pop_def d missing)
qed

text \<open>The claim as stated fails: the family has two registered instances, the placed
  object of \<open>a1\<close> exists and that of \<open>a2\<close> does not, but the stored family type has no
  geometry factory; the command deletes the placed object of \<open>a1\<close> and then raises
  \<^verbatim>\<open>ValueError\<close>.\<close>

theorem sync_counterexample:
  "DynamicBlockRegistry_load sample_lib disc_doc = disc_registry
   \<and> objects disc_doc ''a1''
       = Some (InstanceObject 0 [1, 0, 0, 5, 0, 1, 0, 0, 0, 0, 1, 0, 0, 0, 0, 1] [])
   \<and> objects disc_doc ''a2'' = None
   \<and> fst (cmd_sync_family_instances sample_lib (Some ''Panel'') (Some 1) (Some 2) disc_doc)
       = Inl ValueError"
proof -
  have o: "objects disc_doc ''a1''
       = Some (InstanceObject 0 [1, 0, 0, 5, 0, 1, 0, 0, 0, 0, 1, 0, 0, 0, 0, 1] [])"
    "objects disc_doc ''a2'' = None" "can_delete disc_doc ''a1''"
    by (simp_all add: disc_doc_def sample_doc_def blank_doc_def)
  have i: "idefs (disc_doc\<lparr>objects := (objects disc_doc)(''a1'' := None)\<rparr>) = []"
    by (simp add: disc_doc_def sample_doc_def blank_doc_def)
  have e: "ensure_definition sample_lib disc sample_values
             (disc_doc\<lparr>objects := (objects disc_doc)(''a1'' := None)\<rparr>)
           = (Inl ValueError, disc_doc\<lparr>objects := (objects disc_doc)(''a1'' := None)\<rparr>)"
    by (simp add: ensure_definition_def disc_def sample_values_def definition_name_def
        sample_lib_def table_lib_def less_eq_char_def less_char_def
        InstanceDefinitions_Find_def i build_geometry_def)
  have r: "replace_instance_geometry sample_lib ''a1'' disc sample_values disc_doc
           = (Inl ValueError, disc_doc\<lparr>objects := (objects disc_doc)(''a1'' := None)\<rparr>)"
    by (simp add: replace_deleted[OF o(1,3)] bnd_def e)
  have f: "find_family_by_name sample_lib disc_registry ''Panel'' = Inr (Some (''f1'', disc))"
    by (simp add: find_family_by_name_def disc_registry_def sample_lower)
       (simp add: disc_def sample_lower)
  have s: "set_defaults sample_lib disc_registry ''f1'' disc 1 2 = Inr (disc, disc_registry)"
    by (simp add: set_defaults_def disc_registry_def disc_def sample_floats)
  have p: "objects disc_doc ''a1'' \<noteq> None" using o(1) by simp
  have v: "getitem (PDict [(''family_id'', PStr ''f1''), (''values'', sample_values)]) ''values''
             = Inr sample_values" by simp
  have st: "sync_step sample_lib disc ''f1''
              (''a1'', PDict [(''family_id'', PStr ''f1''), (''values'', sample_values)])
              disc_registry disc_doc
            = (Inl ValueError, disc_doc\<lparr>objects := (objects disc_doc)(''a1'' := None)\<rparr>)"
    unfolding sync_step_present[OF p v r] by simp
  have it: "iter_instances_for_family disc_registry ''f1''
          = Inr [(''a1'', PDict [(''family_id'', PStr ''f1''), (''values'', sample_values)]),
                 (''a2'', PDict [(''family_id'', PStr ''f1''), (''values'', sample_values)])]"
    by (simp add: iter_instances_for_family_def disc_registry_def)
  have fo: "families_of disc_registry = Inr (PDict [(''f1'', disc)])"
    by (simp add: families_of_def disc_registry_def)
  have fn: "family_names [(''f1'', disc)] = Inr [PStr ''Panel'']"
    by (simp add: disc_def)
  have sn: "sorted_names [PStr ''Panel''] = Inr [''Panel'']"
    by (simp add: sorted_names_def)
  have gp: "getitem disc ''parameters'' = Inr (PDict [(''Width'', PFloat 1), (''Height'', PFloat 2)])"
    "truthy disc" "getitem disc ''name'' = Inr (PStr ''Panel'')"
    by (simp_all add: disc_def)
  have lp: "sync_loop sample_lib disc ''f1''
              [(''a1'', PDict [(''family_id'', PStr ''f1''), (''values'', sample_values)]),
               (''a2'', PDict [(''family_id'', PStr ''f1''), (''values'', sample_values)])]
              disc_registry disc_doc
            = (Inl ValueError, disc_doc\<lparr>objects := (objects disc_doc)(''a1'' := None)\<rparr>)"
    by (simp add: st)
  have "cmd_sync_family_instances sample_lib (Some ''Panel'') (Some 1) (Some 2) disc_doc
        = (Inl ValueError, disc_doc\<lparr>objects := (objects disc_doc)(''a1'' := None)\<rparr>)"
    by (simp add: cmd_sync_family_instances_def Let_def disc_load fo fn sn f gp sample_floats s it)
       (simp add: bnd_def st)
  with o disc_load show ?thesis by simp
qed

end
